theory Spec2Isabelle
  imports Complex_Main "HOL-Library.Multiset"
begin

section \<open>Gaussian naive Bayes (scikits/learn/naive\_bayes.py)\<close>

text \<open>
  The class \<open>GNB\<close> has three methods, \<open>fit\<close>, \<open>predict\<close> and \<open>predict_proba\<close>, all
  written with numpy. The embedding follows the source line by line and models the numpy
  operations it calls by their documented behaviour.

  Conventions of the model:
  \<^item> a one-dimensional array is a list, a two-dimensional array is the list of its rows;
    an array with no rows is \<open>[]\<close> (its column count is not represented);
  \<^item> numbers that are finite by construction are \<open>real\<close> and arithmetic on them is exact:
    \<open>fit\<close>, the scores of \<open>predict_proba\<close> and the quotients are those of exact
    arithmetic, without the overflow of sums and products of the inputs (it needs
    magnitudes beyond \<open>10^150\<close>);
  \<^item> the rounding of 64-bit floats is modelled for \<open>fit\<close> in a second embedding,
    \<open>fit_rnd\<close>, which rounds after every arithmetic operation and is \<open>fit\<close> when the
    rounding is the identity;
  \<^item> where the source leaves the finite numbers on ordinary inputs (the logarithm of 0,
    the exponential of a score beyond the range of doubles, the sum of exponentials
    beyond that range, and what is computed from them) values are \<open>npfloat\<close>: a finite
    real, an infinity or NaN, with the IEEE rules for them (signed zeros are not
    distinguished);
  \<^item> an exception is a value \<open>Inl e\<close> of a sum type;
  \<^item> the attributes \<open>theta\<close>, \<open>sigma\<close>, \<open>proba_y\<close>, \<open>uniy\<close> of an estimator exist only
    after \<open>fit\<close>: the state of an estimator is \<open>None\<close> before and \<open>Some g\<close> after.
\<close>

subsection \<open>Exceptions\<close>

text \<open>
  \<open>AttributeError\<close>, \<open>IndexError\<close>, \<open>ValueError\<close> and \<open>AxisError\<close> are raised by Python
  and numpy. \<open>UnfittedModelError\<close> and \<open>InvalidInputError\<close> are the names the
  specification uses; the source defines no such class and no path of the model
  produces them.
\<close>

datatype error =
    AttributeError
  | IndexError
  | ValueError
  | AxisError
  | UnfittedModelError
  | InvalidInputError

subsection \<open>Floating-point values with infinities and NaN\<close>

datatype npfloat = Fin real | PInf | NInf | NaN

text \<open>
  The operators \<open>+\<close>, \<open>-\<close> and \<open>*\<close> of the source act on the scores (logarithms, sums
  of squares and of variances): on finite operands they are exact, since a score leaves
  the range of doubles only for inputs beyond \<open>10^150\<close>. The exponentials of the scores
  are added by \<open>np.sum\<close>, which has the range of doubles (below).
\<close>

fun np_add :: "npfloat \<Rightarrow> npfloat \<Rightarrow> npfloat" where
  "np_add (Fin a) (Fin b) = Fin (a + b)"
| "np_add NaN y = NaN"
| "np_add x NaN = NaN"
| "np_add PInf NInf = NaN"
| "np_add NInf PInf = NaN"
| "np_add PInf y = PInf"
| "np_add x PInf = PInf"
| "np_add NInf y = NInf"
| "np_add x NInf = NInf"

fun np_neg :: "npfloat \<Rightarrow> npfloat" where
  "np_neg (Fin a) = Fin (- a)"
| "np_neg PInf = NInf"
| "np_neg NInf = PInf"
| "np_neg NaN = NaN"

definition np_sub :: "npfloat \<Rightarrow> npfloat \<Rightarrow> npfloat" where
  "np_sub x y = np_add x (np_neg y)"

fun np_sign :: "npfloat \<Rightarrow> real" where
  "np_sign (Fin a) = sgn a"
| "np_sign PInf = 1"
| "np_sign NInf = - 1"
| "np_sign NaN = 0"

definition inf_of_sign :: "real \<Rightarrow> npfloat" where
  "inf_of_sign s = (if 0 < s then PInf else if s < 0 then NInf else NaN)"

fun np_mul :: "npfloat \<Rightarrow> npfloat \<Rightarrow> npfloat" where
  "np_mul (Fin a) (Fin b) = Fin (a * b)"
| "np_mul NaN y = NaN"
| "np_mul x NaN = NaN"
| "np_mul x y = inf_of_sign (np_sign x * np_sign y)"

text \<open>
  Division: a finite value over 0 is an infinity of the sign of the numerator (0/0 is
  NaN), a finite value over an infinity is 0, an infinity over an infinity is NaN.
\<close>

fun np_div :: "npfloat \<Rightarrow> npfloat \<Rightarrow> npfloat" where
  "np_div (Fin a) (Fin b) = (if b = 0 then inf_of_sign (sgn a) else Fin (a / b))"
| "np_div NaN y = NaN"
| "np_div x NaN = NaN"
| "np_div (Fin a) y = Fin 0"
| "np_div x (Fin b) = inf_of_sign (np_sign x * (if b < 0 then - 1 else 1))"
| "np_div x y = NaN"

text \<open>
  \<open>np.exp\<close> leaves the finite doubles for moderate arguments, and is modelled with its
  range: the result is \<open>inf\<close> when the exact value reaches \<open>2^1024 - 2^970\<close> (the
  least real that rounds to infinity; arguments from about 709.78) and 0 when the exact
  value is at most \<open>2^-1075\<close> (half of the least positive double; arguments up to about
  -745.13). Inside the range the exact value is kept.
\<close>

definition dbl_overflow :: real where
  "dbl_overflow = 2 ^ 1024 - 2 ^ 970"

definition dbl_underflow :: real where
  "dbl_underflow = 1 / 2 ^ 1075"

fun np_exp :: "npfloat \<Rightarrow> npfloat" where
  "np_exp (Fin a) =
     (if dbl_overflow \<le> exp a then PInf
      else if exp a \<le> dbl_underflow then Fin 0
      else Fin (exp a))"
| "np_exp PInf = PInf"
| "np_exp NInf = Fin 0"
| "np_exp NaN = NaN"

text \<open>\<open>np.log\<close> of a finite number: \<open>-inf\<close> at 0 and NaN below 0.\<close>

definition np_log :: "real \<Rightarrow> npfloat" where
  "np_log x = (if 0 < x then Fin (ln x) else if x = 0 then NInf else NaN)"

text \<open>The comparison \<open><=\<close> of IEEE values: false as soon as one side is NaN.\<close>

fun np_le :: "npfloat \<Rightarrow> npfloat \<Rightarrow> bool" where
  "np_le (Fin a) (Fin b) = (a \<le> b)"
| "np_le NaN y = False"
| "np_le x NaN = False"
| "np_le NInf y = True"
| "np_le x PInf = True"
| "np_le x y = False"

text \<open>
  \<open>np.sum\<close> of a one-dimensional array adds the elements in index order, starting
  from 0. In \<open>predict_proba\<close> it adds exponentials, which reach the end of the range of
  doubles: every partial sum is brought back to that range, an infinity when it is
  beyond it. (For arrays of eight elements and more numpy adds in pairs: the result
  differs by rounding only, and by overflow only when the signs are mixed.)
\<close>

definition dbl_range :: "npfloat \<Rightarrow> npfloat" where
  "dbl_range x =
     (case x of
        Fin a \<Rightarrow>
          (if dbl_overflow \<le> a then PInf
           else if a \<le> - dbl_overflow then NInf
           else Fin a)
      | PInf \<Rightarrow> PInf
      | NInf \<Rightarrow> NInf
      | NaN \<Rightarrow> NaN)"

fun sum_loop :: "npfloat \<Rightarrow> npfloat list \<Rightarrow> npfloat" where
  "sum_loop res [] = res"
| "sum_loop res (x # xs) = sum_loop (dbl_range (np_add res x)) xs"

definition np_sum :: "npfloat list \<Rightarrow> npfloat" where
  "np_sum xs = sum_loop (Fin 0) xs"

text \<open>
  \<open>np.argmax\<close> of a one-dimensional array, as numpy's loop for floats: the running
  maximum \<open>mp\<close> is replaced by an element \<open>x\<close> when \<open>x <= mp\<close> is false, and the loop
  stops at the first NaN. An empty array raises ValueError.
\<close>

fun argmax_loop :: "npfloat \<Rightarrow> nat \<Rightarrow> nat \<Rightarrow> npfloat list \<Rightarrow> nat" where
  "argmax_loop mp max_ind i [] = max_ind"
| "argmax_loop mp max_ind i (x # xs) =
     (if \<not> np_le x mp
      then (if x = NaN then i else argmax_loop x i (Suc i) xs)
      else argmax_loop mp max_ind (Suc i) xs)"

definition np_argmax :: "npfloat list \<Rightarrow> error + nat" where
  "np_argmax xs =
     (case xs of
        [] \<Rightarrow> Inl ValueError
      | x # rest \<Rightarrow> if x = NaN then Inr 0 else Inr (argmax_loop x 0 1 rest))"

subsection \<open>Array operations\<close>

text \<open>Indexing \<open>a[i]\<close> with \<open>0 <= i\<close>: IndexError out of range.\<close>

definition np_get :: "'a list \<Rightarrow> nat \<Rightarrow> error + 'a" where
  "np_get xs i = (if i < length xs then Inr (xs ! i) else Inl IndexError)"

text \<open>\<open>np.unique\<close>: the array is sorted and adjacent duplicates are dropped.\<close>

definition np_unique :: "'l::linorder list \<Rightarrow> 'l list" where
  "np_unique y = remdups_adj (sort y)"

text \<open>
  \<open>X[mask,:]\<close> for a boolean mask: the rows of \<open>X\<close> at the positions where the mask is
  true. numpy (from 1.13) raises IndexError when the mask is not as long as \<open>X\<close>.
\<close>

definition np_bool_index :: "'a list \<Rightarrow> bool list \<Rightarrow> error + 'a list" where
  "np_bool_index X msk =
     (if length msk \<noteq> length X then Inl IndexError
      else Inr (map fst (filter snd (zip X msk))))"

text \<open>
  \<open>np.sum(A, 0)\<close>, \<open>np.mean(A, 0)\<close> and \<open>np.var(A, 0)\<close> of a two-dimensional array with
  at least one row: the sum of the rows, the sum divided by the number of rows, and the
  mean of the squared deviations from the mean (\<open>ddof = 0\<close>). On an array without
  rows numpy returns NaN with a warning; the model has \<open>[]\<close> there, a value that \<open>fit\<close>
  never reads, since it calls them on selections that have a row
  (\<open>np_bool_index_nonempty\<close> below).
\<close>

fun np_sum0 :: "real list list \<Rightarrow> real list" where
  "np_sum0 [] = []"
| "np_sum0 [r] = r"
| "np_sum0 (r # rs) = map2 (+) r (np_sum0 rs)"

definition np_mean0 :: "real list list \<Rightarrow> real list" where
  "np_mean0 A = map (\<lambda>s. s / real (length A)) (np_sum0 A)"

definition np_var0 :: "real list list \<Rightarrow> real list" where
  "np_var0 A =
     (let arrmean = np_mean0 A
      in np_mean0 (map (\<lambda>r. map2 (\<lambda>a m. (a - m) * (a - m)) r arrmean) A))"

text \<open>
  \<open>x - t\<close> for two one-dimensional arrays under numpy's broadcasting: equal lengths
  subtract elementwise, an array of length 1 is stretched, anything else is a ValueError.
\<close>

definition broadcast_sub :: "real list \<Rightarrow> real list \<Rightarrow> error + real list" where
  "broadcast_sub x t =
     (if length x = length t then Inr (map2 (-) x t)
      else if length x = 1 then Inr (map (\<lambda>b. hd x - b) t)
      else if length t = 1 then Inr (map (\<lambda>a. a - hd t) x)
      else Inl ValueError)"

text \<open>\<open>X - t\<close> for a two-dimensional \<open>X\<close>: \<open>t\<close> is subtracted from every row.\<close>

fun sub_rows :: "real list list \<Rightarrow> real list \<Rightarrow> error + real list list" where
  "sub_rows [] t = Inr []"
| "sub_rows (x # xs) t =
     (case broadcast_sub x t of
        Inl e \<Rightarrow> Inl e
      | Inr d \<Rightarrow>
          (case sub_rows xs t of Inl e \<Rightarrow> Inl e | Inr ds \<Rightarrow> Inr (d # ds)))"

text \<open>\<open>A.T\<close> of the array built from a list of equally long rows.\<close>

definition np_transpose :: "'a list list \<Rightarrow> 'a list list" where
  "np_transpose A =
     (case A of [] \<Rightarrow> [] | r # _ \<Rightarrow> map (\<lambda>k. map (\<lambda>row. row ! k) A) [0..<length r])"

subsection \<open>The estimator\<close>

subsubsection \<open>fit\<close>

text \<open>
  The loop \<open>for yi in uniy\<close> of \<open>fit\<close>, with the three lists it appends to as the state.
  \<open>X[y==yi,:]\<close> is evaluated for the mean and again for the variance.
\<close>

fun fit_loop ::
  "real list list \<Rightarrow> 'l list \<Rightarrow> 'l list \<Rightarrow>
   real list list \<times> real list list \<times> real list \<Rightarrow>
   error + (real list list \<times> real list list \<times> real list)" where
  "fit_loop X y [] acc = Inr acc"
| "fit_loop X y (yi # rest) (theta, sigma, proba_y) =
     (case np_bool_index X (map (\<lambda>v. v = yi) y) of
        Inl e \<Rightarrow> Inl e
      | Inr A \<Rightarrow>
          (case np_bool_index X (map (\<lambda>v. v = yi) y) of
             Inl e \<Rightarrow> Inl e
           | Inr B \<Rightarrow>
               fit_loop X y rest
                 (theta @ [np_mean0 A],
                  sigma @ [np_var0 B],
                  proba_y @ [real (length (filter (\<lambda>v. v = yi) y)) / real (length y)])))"

record 'l gnb =
  theta :: "real list list"
  sigma :: "real list list"
  proba_y :: "real list"
  uniy :: "'l list"

definition fit :: "real list list \<Rightarrow> 'l::linorder list \<Rightarrow> error + 'l gnb" where
  "fit X y =
     (let uniy' = np_unique y
      in case fit_loop X y uniy' ([], [], []) of
           Inl e \<Rightarrow> Inl e
         | Inr (theta', sigma', proba_y') \<Rightarrow>
             Inr \<lparr>theta = theta', sigma = sigma', proba_y = proba_y', uniy = uniy'\<rparr>)"

subsubsection \<open>predict\_proba\<close>

text \<open>
  The body of the loop \<open>for i in range(np.size(self.uniy))\<close>: the joint log likelihood
  of every row of \<open>X\<close> for class \<open>i\<close>.
\<close>

definition jll_class :: "'l gnb \<Rightarrow> real list list \<Rightarrow> nat \<Rightarrow> error + npfloat list" where
  "jll_class g X i =
     (case np_get (proba_y g) i of
        Inl e \<Rightarrow> Inl e
      | Inr p \<Rightarrow>
     (case np_get (sigma g) i of
        Inl e \<Rightarrow> Inl e
      | Inr s \<Rightarrow>
     (case np_get (theta g) i of
        Inl e \<Rightarrow> Inl e
      | Inr t \<Rightarrow>
     (case sub_rows X t of
        Inl e \<Rightarrow> Inl e
      | Inr D \<Rightarrow>
          (let jointi = np_log p;
               n_ij = np_sum (map (\<lambda>v. np_mul (Fin (- 0.5)) (np_log (pi * v))) s);
               n_ij = replicate (length X) (np_mul n_ij (Fin 1));
               n_ij = map2 np_sub n_ij
                        (map (\<lambda>d. Fin (sum_list (map (\<lambda>v. v ^ 2) d))) D);
               n_ij = map (\<lambda>a. np_add a (Fin (sum_list (map (\<lambda>v. 2 * v) s) * 1))) n_ij
           in Inr (map (np_add jointi) n_ij))))))"

fun jll_loop :: "'l gnb \<Rightarrow> real list list \<Rightarrow> nat list \<Rightarrow> error + npfloat list list" where
  "jll_loop g X [] = Inr []"
| "jll_loop g X (i # rest) =
     (case jll_class g X i of
        Inl e \<Rightarrow> Inl e
      | Inr v \<Rightarrow>
          (case jll_loop g X rest of Inl e \<Rightarrow> Inl e | Inr vs \<Rightarrow> Inr (v # vs)))"

text \<open>
  \<open>np.size(self.uniy)\<close> is the first thing evaluated: on an estimator without the
  attribute it raises AttributeError. With no class the list of likelihoods is empty,
  the array built from it is one-dimensional and \<open>np.sum(proba, 1)\<close> raises AxisError.
\<close>

definition predict_proba ::
  "'l gnb option \<Rightarrow> real list list \<Rightarrow> error + npfloat list list" where
  "predict_proba self X =
     (case self of
        None \<Rightarrow> Inl AttributeError
      | Some g \<Rightarrow>
          (case jll_loop g X [0..<length (uniy g)] of
             Inl e \<Rightarrow> Inl e
           | Inr joint_log_likelihood \<Rightarrow>
               if joint_log_likelihood = [] then Inl AxisError
               else
                 (let proba = map (map np_exp) (np_transpose joint_log_likelihood)
                  in Inr (map (\<lambda>row. map (\<lambda>p. np_div p (np_sum row)) row) proba))))"

subsubsection \<open>predict\<close>

text \<open>\<open>np.argmax(P, 1)\<close>: the argmax of every row.\<close>

fun argmax_rows :: "npfloat list list \<Rightarrow> error + nat list" where
  "argmax_rows [] = Inr []"
| "argmax_rows (r # rs) =
     (case np_argmax r of
        Inl e \<Rightarrow> Inl e
      | Inr k \<Rightarrow> (case argmax_rows rs of Inl e \<Rightarrow> Inl e | Inr ks \<Rightarrow> Inr (k # ks)))"

text \<open>\<open>a[idx]\<close> for an array of indices.\<close>

fun np_take :: "'a list \<Rightarrow> nat list \<Rightarrow> error + 'a list" where
  "np_take a [] = Inr []"
| "np_take a (k # ks) =
     (case np_get a k of
        Inl e \<Rightarrow> Inl e
      | Inr v \<Rightarrow> (case np_take a ks of Inl e \<Rightarrow> Inl e | Inr vs \<Rightarrow> Inr (v # vs)))"

text \<open>
  \<open>self.uniy[np.argmax(self.predict_proba(X), 1)]\<close>: Python evaluates \<open>self.uniy\<close>
  before the index expression.
\<close>

definition predict :: "'l gnb option \<Rightarrow> real list list \<Rightarrow> error + 'l list" where
  "predict self X =
     (case self of
        None \<Rightarrow> Inl AttributeError
      | Some g \<Rightarrow>
          (case predict_proba self X of
             Inl e \<Rightarrow> Inl e
           | Inr proba \<Rightarrow>
               (case argmax_rows proba of
                  Inl e \<Rightarrow> Inl e
                | Inr idx \<Rightarrow> np_take (uniy g) idx)))"

subsection \<open>fit with the rounding of doubles\<close>



text \<open>
  The array operations of \<open>fit\<close> with a rounding \<open>rnd\<close> after every arithmetic
  operation: \<open>np.sum(A, 0)\<close> adds the rows one after the other to the first one,
  \<open>np.mean(A, 0)\<close> divides the sum by the number of rows, \<open>np.var(A, 0)\<close> subtracts the
  mean, squares and takes the mean. (numpy adds long contiguous arrays in pairs; the
  order matters to the rounding errors only.) With the identity for \<open>rnd\<close> they are the
  exact operations above (\<open>fit_rnd_exact\<close> below), with \<open>round_dbl\<close> they are the
  operations on doubles.
\<close>

fun add_rows_rnd :: "(real \<Rightarrow> real) \<Rightarrow> real list \<Rightarrow> real list list \<Rightarrow> real list" where
  "add_rows_rnd rnd acc [] = acc"
| "add_rows_rnd rnd acc (r # rs) = add_rows_rnd rnd (map2 (\<lambda>a b. rnd (a + b)) acc r) rs"

fun np_sum0_rnd :: "(real \<Rightarrow> real) \<Rightarrow> real list list \<Rightarrow> real list" where
  "np_sum0_rnd rnd [] = []"
| "np_sum0_rnd rnd (r # rs) = add_rows_rnd rnd r rs"

definition np_mean0_rnd :: "(real \<Rightarrow> real) \<Rightarrow> real list list \<Rightarrow> real list" where
  "np_mean0_rnd rnd A = map (\<lambda>s. rnd (s / real (length A))) (np_sum0_rnd rnd A)"

definition np_var0_rnd :: "(real \<Rightarrow> real) \<Rightarrow> real list list \<Rightarrow> real list" where
  "np_var0_rnd rnd A =
     (let arrmean = np_mean0_rnd rnd A;
          x = map (\<lambda>r. map2 (\<lambda>a m. rnd (a - m)) r arrmean) A;
          x = map (map (\<lambda>v. rnd (v * v))) x
      in np_mean0_rnd rnd x)"

fun fit_loop_rnd ::
  "(real \<Rightarrow> real) \<Rightarrow> real list list \<Rightarrow> 'l list \<Rightarrow> 'l list \<Rightarrow>
   real list list \<times> real list list \<times> real list \<Rightarrow>
   error + (real list list \<times> real list list \<times> real list)" where
  "fit_loop_rnd rnd X y [] acc = Inr acc"
| "fit_loop_rnd rnd X y (yi # rest) (th, sg, pr) =
     (case np_bool_index X (map (\<lambda>v. v = yi) y) of
        Inl e \<Rightarrow> Inl e
      | Inr A \<Rightarrow>
          (case np_bool_index X (map (\<lambda>v. v = yi) y) of
             Inl e \<Rightarrow> Inl e
           | Inr B \<Rightarrow>
               fit_loop_rnd rnd X y rest
                 (th @ [np_mean0_rnd rnd A],
                  sg @ [np_var0_rnd rnd B],
                  pr @ [rnd (real (length (filter (\<lambda>v. v = yi) y)) / real (length y))])))"

definition fit_rnd ::
  "(real \<Rightarrow> real) \<Rightarrow> real list list \<Rightarrow> 'l::linorder list \<Rightarrow> error + 'l gnb" where
  "fit_rnd rnd X y =
     (let uniy' = np_unique y
      in case fit_loop_rnd rnd X y uniy' ([], [], []) of
           Inl e \<Rightarrow> Inl e
         | Inr (theta', sigma', proba_y') \<Rightarrow>
             Inr \<lparr>theta = theta', sigma = sigma', proba_y = proba_y', uniy = uniy'\<rparr>)"

subsection \<open>The specification's notions\<close>

text \<open>
  The definitions of this subsection follow the words of the specification, not the
  source: they are what the source's results are compared with.

  The rows of class \<open>c\<close> are the positions \<open>k\<close> with \<open>y[k] = c\<close>; the mean of feature
  \<open>j\<close> over them is the arithmetic mean and the variance is the population variance
  (the divisor is the number of rows of the class).
\<close>

definition class_rows :: "'l list \<Rightarrow> 'l \<Rightarrow> nat list" where
  "class_rows y c = filter (\<lambda>k. y ! k = c) [0..<length y]"

definition class_mean :: "real list list \<Rightarrow> 'l list \<Rightarrow> 'l \<Rightarrow> nat \<Rightarrow> real" where
  "class_mean X y c j =
     sum_list (map (\<lambda>k. X ! k ! j) (class_rows y c)) / real (length (class_rows y c))"

definition class_variance :: "real list list \<Rightarrow> 'l list \<Rightarrow> 'l \<Rightarrow> nat \<Rightarrow> real" where
  "class_variance X y c j =
     sum_list (map (\<lambda>k. (X ! k ! j - class_mean X y c j) ^ 2) (class_rows y c))
       / real (length (class_rows y c))"

text \<open>
  The input constraints of \<open>fit\<close>: \<open>X\<close> has as many rows as \<open>y\<close> has labels, at least
  one, and every row has the same number \<open>n \<ge> 1\<close> of features.
\<close>

definition valid_input :: "nat \<Rightarrow> real list list \<Rightarrow> 'l list \<Rightarrow> bool" where
  "valid_input n X y \<longleftrightarrow>
     length X = length y \<and> 1 \<le> length y \<and> 1 \<le> n \<and> (\<forall>r\<in>set X. length r = n)"

text \<open>
  The invariant of the fitted state (section 3 of the specification): at least one
  class, one row of \<open>n\<close> means, one row of \<open>n\<close> variances and one prior per class,
  variances that are not negative and priors that are positive.
\<close>

definition fitted_model :: "nat \<Rightarrow> 'l gnb \<Rightarrow> bool" where
  "fitted_model n g \<longleftrightarrow>
     1 \<le> length (uniy g) \<and>
     length (theta g) = length (uniy g) \<and>
     length (sigma g) = length (uniy g) \<and>
     length (proba_y g) = length (uniy g) \<and>
     (\<forall>t\<in>set (theta g). length t = n) \<and>
     (\<forall>s\<in>set (sigma g). length s = n \<and> (\<forall>v\<in>set s. 0 \<le> v)) \<and>
     (\<forall>p\<in>set (proba_y g). 0 < p)"

text \<open>
  The score of sample \<open>x\<close> for class \<open>i\<close> as the specification writes it:
  \<open>ln(class_prior[i]) + sum_j(-0.5 * ln(pi * variance[i][j]))
     - sum_j((x_j - mean[i][j])^2) + sum_j(2 * variance[i][j])\<close>,
  and the probability: the exponential of the score over the sum of the exponentials of
  the scores of all classes.
\<close>

definition jll_spec :: "'l gnb \<Rightarrow> real list \<Rightarrow> nat \<Rightarrow> npfloat" where
  "jll_spec g x i =
     np_add
       (np_sub
          (np_add (np_log (proba_y g ! i))
             (np_sum (map (\<lambda>j. np_mul (Fin (- 0.5)) (np_log (pi * sigma g ! i ! j)))
                        [0..<length x])))
          (Fin (sum_list (map (\<lambda>j. (x ! j - theta g ! i ! j) ^ 2) [0..<length x]))))
       (Fin (sum_list (map (\<lambda>j. 2 * sigma g ! i ! j) [0..<length x])))"

definition proba_spec :: "'l gnb \<Rightarrow> real list \<Rightarrow> nat \<Rightarrow> npfloat" where
  "proba_spec g x i =
     np_div (np_exp (jll_spec g x i))
       (np_sum (map (\<lambda>i'. np_exp (jll_spec g x i')) [0..<length (uniy g)]))"

subsection \<open>Auxiliary notions\<close>

text \<open>
  The value that one iteration of the loop of \<open>predict_proba\<close> gives to a row \<open>x\<close>,
  as one expression in the order in which the source computes it.
\<close>

definition jll_code :: "'l gnb \<Rightarrow> real list \<Rightarrow> nat \<Rightarrow> npfloat" where
  "jll_code g x i =
     np_add (np_log (proba_y g ! i))
       (np_add
          (np_sub
             (np_mul (np_sum (map (\<lambda>v. np_mul (Fin (- 0.5)) (np_log (pi * v))) (sigma g ! i)))
                (Fin 1))
             (Fin (sum_list (map (\<lambda>v. v ^ 2) (map2 (-) x (theta g ! i))))))
          (Fin (sum_list (map (\<lambda>v. 2 * v) (sigma g ! i)) * 1)))"

text \<open>
  The score of the specification as a real number, which it is when the prior and the
  variances of the class are positive.
\<close>

definition jll_real :: "'l gnb \<Rightarrow> real list \<Rightarrow> nat \<Rightarrow> real" where
  "jll_real g x i =
     ln (proba_y g ! i)
       + sum_list (map (\<lambda>j. - 0.5 * ln (pi * sigma g ! i ! j)) [0..<length x])
       - sum_list (map (\<lambda>j. (x ! j - theta g ! i ! j) ^ 2) [0..<length x])
       + sum_list (map (\<lambda>j. 2 * sigma g ! i ! j) [0..<length x])"

text \<open>
  The exponentials of the scores of a row, which \<open>predict_proba\<close> divides by their
  sum; the sum is finite and positive when no exponential is infinite, the partial sums
  stay in the range of doubles and not every exponential is 0.
\<close>

definition exp_row :: "'l gnb \<Rightarrow> real list \<Rightarrow> npfloat list" where
  "exp_row g x = map (\<lambda>i. np_exp (jll_spec g x i)) [0..<length (uniy g)]"

definition row_sum_finite_pos :: "'l gnb \<Rightarrow> real list \<Rightarrow> bool" where
  "row_sum_finite_pos g x \<longleftrightarrow>
     (case np_sum (exp_row g x) of Fin S \<Rightarrow> 0 < S | PInf \<Rightarrow> False | NInf \<Rightarrow> False | NaN \<Rightarrow> False)"

section \<open>Properties of fit\<close>

subsection \<open>What the loop of fit computes\<close>

lemma distinct_remdups_adj_sorted:
  "sorted (xs :: 'a::linorder list) \<Longrightarrow> distinct (remdups_adj xs)"
proof (induction xs rule: remdups_adj.induct)
  case (3 x y xs)
  then show ?case by (cases "x = y") (auto)
qed simp_all

lemma np_unique_eq: "np_unique y = sorted_list_of_set (set y)"
proof -
  have "sorted (remdups_adj (sort y))" by simp
  moreover have "distinct (remdups_adj (sort y))" by (simp add: distinct_remdups_adj_sorted)
  moreover have "set (remdups_adj (sort y)) = set y" by simp
  ultimately show ?thesis unfolding np_unique_def
    by (metis sorted_list_of_set.idem_if_sorted_distinct)
qed

lemma set_np_unique: "set (np_unique y) = set y"
  by (simp add: np_unique_def)

lemma distinct_np_unique: "distinct (np_unique y)"
  by (simp add: np_unique_def distinct_remdups_adj_sorted)

lemma np_bool_index_class:
  assumes "length X = length y"
  shows "np_bool_index X (map (\<lambda>v. v = c) y) = Inr (map ((!) X) (class_rows y c))"
proof -
  have z: "zip X (map (\<lambda>v. v = c) y) = map (\<lambda>k. (X ! k, y ! k = c)) [0..<length y]"
    using assms by (intro nth_equalityI) simp_all
  show ?thesis
    unfolding np_bool_index_def class_rows_def z using assms
    by (simp add: filter_map comp_def)
qed

lemma length_class_rows: "length (class_rows y c) = length (filter (\<lambda>v. v = c) y)"
proof -
  have "map ((!) y) (class_rows y c) = filter (\<lambda>v. v = c) (map ((!) y) [0..<length y])"
    unfolding class_rows_def by (simp add: filter_map comp_def)
  then have "length (map ((!) y) (class_rows y c)) = length (filter (\<lambda>v. v = c) y)"
    by (simp add: map_nth)
  then show ?thesis by simp
qed

lemma class_rows_nonempty: "c \<in> set y \<Longrightarrow> class_rows y c \<noteq> []"
  by (auto simp: class_rows_def filter_empty_conv in_set_conv_nth)

lemma fit_loop_eq:
  "length X = length y \<Longrightarrow>
   fit_loop X y ys (th, sg, pr) =
     Inr (th @ map (\<lambda>c. np_mean0 (map ((!) X) (class_rows y c))) ys,
          sg @ map (\<lambda>c. np_var0 (map ((!) X) (class_rows y c))) ys,
          pr @ map (\<lambda>c. real (length (class_rows y c)) / real (length y)) ys)"
  by (induction ys arbitrary: th sg pr)
     (simp_all add: np_bool_index_class length_class_rows)

lemma fit_eq:
  "length X = length y \<Longrightarrow>
   fit X y =
     Inr \<lparr>theta = map (\<lambda>c. np_mean0 (map ((!) X) (class_rows y c))) (np_unique y),
          sigma = map (\<lambda>c. np_var0 (map ((!) X) (class_rows y c))) (np_unique y),
          proba_y = map (\<lambda>c. real (length (class_rows y c)) / real (length y)) (np_unique y),
          uniy = np_unique y\<rparr>"
  by (simp add: fit_def fit_loop_eq Let_def)

lemma np_sum0_nth:
  "A \<noteq> [] \<Longrightarrow> \<forall>r\<in>set A. length r = n \<Longrightarrow>
   length (np_sum0 A) = n \<and> (\<forall>j<n. np_sum0 A ! j = sum_list (map (\<lambda>r. r ! j) A))"
  by (induction A rule: np_sum0.induct) auto

lemma np_mean0_nth:
  assumes "A \<noteq> []" "\<forall>r\<in>set A. length r = n"
  shows "length (np_mean0 A) = n"
    and "j < n \<Longrightarrow> np_mean0 A ! j = sum_list (map (\<lambda>r. r ! j) A) / real (length A)"
  using np_sum0_nth[OF assms] by (simp_all add: np_mean0_def)

lemma np_var0_nth:
  assumes "A \<noteq> []" "\<forall>r\<in>set A. length r = n"
  shows "length (np_var0 A) = n"
    and "j < n \<Longrightarrow> np_var0 A ! j =
           sum_list (map (\<lambda>r. (r ! j - np_mean0 A ! j) ^ 2) A) / real (length A)"
proof -
  let ?B = "map (\<lambda>r. map2 (\<lambda>a m. (a - m) * (a - m)) r (np_mean0 A)) A"
  have B: "?B \<noteq> []" "\<forall>r\<in>set ?B. length r = n"
    using assms np_mean0_nth(1)[OF assms] by auto
  show "length (np_var0 A) = n"
    using np_mean0_nth(1)[OF B] by (simp add: np_var0_def)
  assume j: "j < n"
  have "np_var0 A ! j = sum_list (map (\<lambda>r. r ! j) ?B) / real (length ?B)"
    using np_mean0_nth(2)[OF B j] by (simp add: np_var0_def)
  also have "map (\<lambda>r. r ! j) ?B = map (\<lambda>r. (r ! j - np_mean0 A ! j) ^ 2) A"
    using assms j np_mean0_nth(1)[OF assms] by (auto simp: power2_eq_square)
  finally show "np_var0 A ! j =
           sum_list (map (\<lambda>r. (r ! j - np_mean0 A ! j) ^ 2) A) / real (length A)"
    by simp
qed

lemma class_rows_bound: "k \<in> set (class_rows y c) \<Longrightarrow> k < length y \<and> y ! k = c"
  by (auto simp: class_rows_def)

lemma class_selection:
  assumes "valid_input n X y" "c \<in> set y"
  shows "map ((!) X) (class_rows y c) \<noteq> []"
    and "\<forall>r\<in>set (map ((!) X) (class_rows y c)). length r = n"
  using assms class_rows_nonempty[of c y] class_rows_bound[of _ y c]
  by (auto simp: valid_input_def)

lemma class_mean_eq:
  assumes "valid_input n X y" "c \<in> set y" "j < n"
  shows "np_mean0 (map ((!) X) (class_rows y c)) ! j = class_mean X y c j"
  using np_mean0_nth(2)[OF class_selection[OF assms(1,2)] assms(3)]
  by (simp add: class_mean_def comp_def)

lemma class_variance_eq:
  assumes "valid_input n X y" "c \<in> set y" "j < n"
  shows "np_var0 (map ((!) X) (class_rows y c)) ! j = class_variance X y c j"
  using np_var0_nth(2)[OF class_selection[OF assms(1,2)] assms(3)]
        class_mean_eq[OF assms]
  by (simp add: class_variance_def comp_def)

lemma class_variance_nonneg: "0 \<le> class_variance X y c j"
  unfolding class_variance_def
  by (intro divide_nonneg_nonneg sum_list_nonneg) auto

lemma class_variance_const:
  assumes "class_rows y c \<noteq> []"
    and "\<forall>k\<in>set (class_rows y c). X ! k ! j = v"
  shows "class_variance X y c j = 0"
proof -
  have e: "map (\<lambda>k. X ! k ! j) (class_rows y c) = map (\<lambda>k. v) (class_rows y c)"
    using assms(2) by simp
  have "class_mean X y c j = sum_list (map (\<lambda>k. v) (class_rows y c)) / real (length (class_rows y c))"
    unfolding class_mean_def e ..
  then have m: "class_mean X y c j = v"
    using assms(1) by (simp add: sum_list_triv)
  have e2: "map (\<lambda>k. (X ! k ! j - class_mean X y c j) ^ 2) (class_rows y c)
          = map (\<lambda>k. 0) (class_rows y c)"
    using assms(2) m by simp
  show ?thesis unfolding class_variance_def e2 by simp
qed

lemma sum_class_sizes:
  "sum_list (map (\<lambda>c. real (length (class_rows y c))) (np_unique y)) = real (length y)"
proof -
  have "sum_list (map (\<lambda>c. real (length (class_rows y c))) (np_unique y))
          = sum (\<lambda>c. real (length (class_rows y c))) (set y)"
    using sum_list_distinct_conv_sum_set[OF distinct_np_unique, of "\<lambda>c. real (length (class_rows y c))" y]
    by (simp add: set_np_unique)
  also have "\<dots> = real (sum (count_list y) (set y))"
    unfolding of_nat_sum
  proof (intro sum.cong refl)
    fix c
    have "filter (\<lambda>v. v = c) y = filter ((=) c) y" by (intro filter_cong) auto
    then show "real (length (class_rows y c)) = real (count_list y c)"
      by (simp add: length_class_rows count_list_eq_length_filter)
  qed
  also have "\<dots> = real (length y)"
    by (simp add: sum_count_set)
  finally show ?thesis .
qed

lemma nth_np_unique_in: "i < length (np_unique y) \<Longrightarrow> np_unique y ! i \<in> set y"
  using nth_mem[of i "np_unique y"] by (simp add: set_np_unique)

subsection \<open>Classes, means and variances\<close>

text \<open>
  Claim C2. For every training matrix \<open>X\<close> with at least one row and at least one
  feature and every label vector \<open>y\<close> of the same length, \<open>fit\<close> returns a model whose
  \<open>uniy\<close> (the classes) is the sorted list of the distinct values of \<open>y\<close>, whose
  \<open>theta[i][j]\<close> is the arithmetic mean of feature \<open>j\<close> over the rows labelled with
  class \<open>i\<close>, and whose \<open>sigma[i][j]\<close> is the population variance of feature \<open>j\<close> over
  the same rows (the divisor is the number of those rows).
\<close>

theorem fit_classes_mean_variance:
  assumes "valid_input n X y"
  shows "\<exists>g. fit X y = Inr g \<and>
           uniy g = sorted_list_of_set (set y) \<and>
           length (theta g) = length (uniy g) \<and>
           length (sigma g) = length (uniy g) \<and>
           (\<forall>i<length (uniy g). \<forall>j<n.
              theta g ! i ! j = class_mean X y (uniy g ! i) j \<and>
              sigma g ! i ! j = class_variance X y (uniy g ! i) j)"
proof -
  have l: "length X = length y" using assms by (simp add: valid_input_def)
  let ?g = "\<lparr>theta = map (\<lambda>c. np_mean0 (map ((!) X) (class_rows y c))) (np_unique y),
          sigma = map (\<lambda>c. np_var0 (map ((!) X) (class_rows y c))) (np_unique y),
          proba_y = map (\<lambda>c. real (length (class_rows y c)) / real (length y)) (np_unique y),
          uniy = np_unique y\<rparr>"
  have f: "fit X y = Inr ?g" by (rule fit_eq[OF l])
  have "uniy ?g = sorted_list_of_set (set y)" by (simp add: np_unique_eq)
  moreover have "\<forall>i<length (uniy ?g). \<forall>j<n.
              theta ?g ! i ! j = class_mean X y (uniy ?g ! i) j \<and>
              sigma ?g ! i ! j = class_variance X y (uniy ?g ! i) j"
    by (simp add: nth_np_unique_in class_mean_eq[OF assms] class_variance_eq[OF assms])
  ultimately show ?thesis using f by (intro exI[of _ ?g]) simp
qed

theorem fit_classes_mean_variance_witness:
  "valid_input 2 [[1, 2], [3, 6], [5, 5]] [7, 7, 4 :: int] \<and>
   (\<exists>g. fit [[1, 2], [3, 6], [5, 5]] [7, 7, 4 :: int] = Inr g \<and>
           uniy g = sorted_list_of_set (set [7, 7, 4]) \<and>
           length (theta g) = length (uniy g) \<and>
           length (sigma g) = length (uniy g) \<and>
           (\<forall>i<length (uniy g). \<forall>j<2.
              theta g ! i ! j = class_mean [[1, 2], [3, 6], [5, 5]] [7, 7, 4] (uniy g ! i) j \<and>
              sigma g ! i ! j = class_variance [[1, 2], [3, 6], [5, 5]] [7, 7, 4] (uniy g ! i) j))"
proof -
  have h: "valid_input 2 [[1, 2], [3, 6], [5, 5]] [7, 7, 4 :: int]"
    by (simp add: valid_input_def)
  from h fit_classes_mean_variance[OF h] show ?thesis by (rule conjI)
qed

subsection \<open>Class priors\<close>

lemma sum_list_divide:
  "sum_list (map (\<lambda>c. f c / d) xs) = sum_list (map f xs) / (d::real)"
  by (induction xs) (simp_all add: add_divide_distrib)

text \<open>
  Claim C3. For every valid input of \<open>fit\<close>, the stored \<open>proba_y[i]\<close> (the class prior)
  is the number of training rows labelled with class \<open>i\<close> divided by the number of
  samples, as a division of reals; the priors sum to 1 and each of them is positive.
\<close>

theorem fit_class_prior:
  assumes "valid_input n X y"
  shows "\<exists>g. fit X y = Inr g \<and>
           length (proba_y g) = length (uniy g) \<and>
           (\<forall>i<length (uniy g).
              proba_y g ! i = real (length (class_rows y (uniy g ! i))) / real (length y)) \<and>
           sum_list (proba_y g) = 1 \<and>
           (\<forall>p\<in>set (proba_y g). 0 < p)"
proof -
  have l: "length X = length y" and pos: "0 < length y"
    using assms by (auto simp: valid_input_def)
  let ?g = "\<lparr>theta = map (\<lambda>c. np_mean0 (map ((!) X) (class_rows y c))) (np_unique y),
          sigma = map (\<lambda>c. np_var0 (map ((!) X) (class_rows y c))) (np_unique y),
          proba_y = map (\<lambda>c. real (length (class_rows y c)) / real (length y)) (np_unique y),
          uniy = np_unique y\<rparr>"
  have f: "fit X y = Inr ?g" by (rule fit_eq[OF l])
  have s: "sum_list (map (\<lambda>c. real (length (class_rows y c)) / real (length y)) (np_unique y)) = 1"
  proof -
    have "sum_list (map (\<lambda>c. real (length (class_rows y c)) / real (length y)) (np_unique y))
            = sum_list (map (\<lambda>c. real (length (class_rows y c))) (np_unique y)) / real (length y)"
      by (rule sum_list_divide)
    then show ?thesis using pos by (simp add: sum_class_sizes)
  qed
  have p: "\<forall>c\<in>set (np_unique y). 0 < real (length (class_rows y c)) / real (length y)"
    using pos class_rows_nonempty[of _ y] by (auto simp: set_np_unique)
  show ?thesis using f s p by (intro exI[of _ ?g]) simp
qed

theorem fit_class_prior_witness:
  "valid_input 1 [[1], [3], [5]] [2, 1, 2 :: nat] \<and>
   (\<exists>g. fit [[1], [3], [5]] [2, 1, 2 :: nat] = Inr g \<and>
           length (proba_y g) = length (uniy g) \<and>
           (\<forall>i<length (uniy g).
              proba_y g ! i = real (length (class_rows [2, 1, 2] (uniy g ! i))) / real (length [2, 1, 2 :: nat])) \<and>
           sum_list (proba_y g) = 1 \<and>
           (\<forall>p\<in>set (proba_y g). 0 < p))"
proof -
  have h: "valid_input 1 [[1], [3], [5]] [2, 1, 2 :: nat]"
    by (simp add: valid_input_def)
  from h fit_class_prior[OF h] show ?thesis by (rule conjI)
qed

lemma np_bool_index_nonempty:
  assumes "length X = length y" "c \<in> set y"
    and "np_bool_index X (map (\<lambda>v. v = c) y) = Inr A"
  shows "A \<noteq> []"
  using assms class_rows_nonempty[OF assms(2)]
  by (auto simp: np_bool_index_class)

subsection \<open>The invariant of the fitted state\<close>

lemma fit_fitted_model:
  assumes "valid_input n X y"
  shows "\<exists>g. fit X y = Inr g \<and> fitted_model n g"
proof -
  have l: "length X = length y" and pos: "0 < length y" and y: "y \<noteq> []"
    using assms by (auto simp: valid_input_def)
  let ?g = "\<lparr>theta = map (\<lambda>c. np_mean0 (map ((!) X) (class_rows y c))) (np_unique y),
          sigma = map (\<lambda>c. np_var0 (map ((!) X) (class_rows y c))) (np_unique y),
          proba_y = map (\<lambda>c. real (length (class_rows y c)) / real (length y)) (np_unique y),
          uniy = np_unique y\<rparr>"
  have f: "fit X y = Inr ?g" by (rule fit_eq[OF l])
  have "np_unique y \<noteq> []" using y set_np_unique[of y] by (metis set_empty)
  then have c: "1 \<le> length (uniy ?g)" by (simp add: Suc_le_eq)
  have t: "\<forall>t\<in>set (theta ?g). length t = n"
    using np_mean0_nth(1)[OF class_selection[OF assms]] by (auto simp: set_np_unique)
  have s: "\<forall>s\<in>set (sigma ?g). length s = n \<and> (\<forall>v\<in>set s. 0 \<le> v)"
  proof
    fix s assume "s \<in> set (sigma ?g)"
    then obtain c where c: "c \<in> set y" and s: "s = np_var0 (map ((!) X) (class_rows y c))"
      by (auto simp: set_np_unique)
    have len: "length s = n" unfolding s by (rule np_var0_nth(1)[OF class_selection[OF assms c]])
    have "0 \<le> v" if "v \<in> set s" for v
    proof -
      from that obtain j where "j < n" "v = s ! j" using len by (metis in_set_conv_nth)
      then show ?thesis
        using class_variance_eq[OF assms c, of j] class_variance_nonneg[of X y c j]
        by (simp add: s)
    qed
    then show "length s = n \<and> (\<forall>v\<in>set s. 0 \<le> v)" using len by blast
  qed
  have p: "\<forall>p\<in>set (proba_y ?g). 0 < p"
    using pos class_rows_nonempty[of _ y] by (auto simp: set_np_unique)
  have "fitted_model n ?g"
    unfolding fitted_model_def using c t s p by simp
  then show ?thesis using f by blast
qed

subsection \<open>Variances are not negative\<close>

text \<open>
  In exact arithmetic every entry of the variance matrix that \<open>fit\<close> stores is
  non-negative, and it is 0 when all rows of the class have the same value in the
  feature.
\<close>

lemma fit_variance_exact:
  assumes "valid_input n X y"
  shows "\<exists>g. fit X y = Inr g \<and>
           (\<forall>s\<in>set (sigma g). \<forall>v\<in>set s. 0 \<le> v) \<and>
           (\<forall>i<length (uniy g). \<forall>j<n.
              0 \<le> sigma g ! i ! j \<and>
              ((\<exists>v. \<forall>k<length y. y ! k = uniy g ! i \<longrightarrow> X ! k ! j = v)
                 \<longrightarrow> sigma g ! i ! j = 0))"
proof -
  have l: "length X = length y" using assms by (simp add: valid_input_def)
  let ?g = "\<lparr>theta = map (\<lambda>c. np_mean0 (map ((!) X) (class_rows y c))) (np_unique y),
          sigma = map (\<lambda>c. np_var0 (map ((!) X) (class_rows y c))) (np_unique y),
          proba_y = map (\<lambda>c. real (length (class_rows y c)) / real (length y)) (np_unique y),
          uniy = np_unique y\<rparr>"
  have f: "fit X y = Inr ?g" by (rule fit_eq[OF l])
  have "0 \<le> sigma ?g ! i ! j \<and>
        ((\<exists>v. \<forall>k<length y. y ! k = uniy ?g ! i \<longrightarrow> X ! k ! j = v) \<longrightarrow> sigma ?g ! i ! j = 0)"
    if i: "i < length (uniy ?g)" and j: "j < n" for i j
  proof -
    let ?c = "np_unique y ! i"
    have c: "?c \<in> set y" using i by (simp add: nth_np_unique_in)
    have s: "sigma ?g ! i ! j = class_variance X y ?c j"
      using i by (simp add: class_variance_eq[OF assms c j])
    have "class_variance X y ?c j = 0"
      if "\<forall>k<length y. y ! k = ?c \<longrightarrow> X ! k ! j = v" for v
      using that class_rows_bound[of _ y ?c]
      by (intro class_variance_const[OF class_rows_nonempty[OF c], of _ _ v]) auto
    then show ?thesis using s class_variance_nonneg[of X y ?c j] by auto
  qed
  moreover have "\<forall>s\<in>set (sigma ?g). \<forall>v\<in>set s. 0 \<le> v"
  proof -
    obtain g' where "fit X y = Inr g'" "fitted_model n g'"
      using fit_fitted_model[OF assms] by blast
    then have "fitted_model n ?g" using f by simp
    then show ?thesis unfolding fitted_model_def by blast
  qed
  ultimately show ?thesis using f by (intro exI[of _ ?g]) simp
qed

subsection \<open>Variances with the rounding of doubles\<close>













lemma fit_loop_rnd_eq:
  "length X = length y \<Longrightarrow>
   fit_loop_rnd rnd X y ys (th, sg, pr) =
     Inr (th @ map (\<lambda>c. np_mean0_rnd rnd (map ((!) X) (class_rows y c))) ys,
          sg @ map (\<lambda>c. np_var0_rnd rnd (map ((!) X) (class_rows y c))) ys,
          pr @ map (\<lambda>c. rnd (real (length (class_rows y c)) / real (length y))) ys)"
  by (induction ys arbitrary: th sg pr)
     (simp_all add: np_bool_index_class length_class_rows)

lemma fit_rnd_eq:
  "length X = length y \<Longrightarrow>
   fit_rnd rnd X y =
     Inr \<lparr>theta = map (\<lambda>c. np_mean0_rnd rnd (map ((!) X) (class_rows y c))) (np_unique y),
          sigma = map (\<lambda>c. np_var0_rnd rnd (map ((!) X) (class_rows y c))) (np_unique y),
          proba_y = map (\<lambda>c. rnd (real (length (class_rows y c)) / real (length y))) (np_unique y),
          uniy = np_unique y\<rparr>"
  by (simp add: fit_rnd_def fit_loop_rnd_eq Let_def)












lemma add_rows_exact:
  "length acc = n \<Longrightarrow> \<forall>r\<in>set rs. length r = n \<Longrightarrow>
   length (add_rows_rnd (\<lambda>v. v) acc rs) = n \<and>
   (\<forall>j<n. add_rows_rnd (\<lambda>v. v) acc rs ! j = acc ! j + sum_list (map (\<lambda>r. r ! j) rs))"
proof (induction rs arbitrary: acc)
  case Nil
  then show ?case by simp
next
  case (Cons r rs)
  have "length (map2 (\<lambda>a b. a + b) acc r) = n" using Cons.prems by simp
  from Cons.IH[OF this] Cons.prems show ?case by (simp add: add.assoc)
qed

lemma np_sum0_rnd_exact:
  assumes "\<forall>r\<in>set A. length r = n"
  shows "np_sum0_rnd (\<lambda>v. v) A = np_sum0 A"
proof (cases A)
  case Nil
  then show ?thesis by simp
next
  case (Cons r rs)
  have A: "A \<noteq> []" using Cons by simp
  have "length r = n" "\<forall>r\<in>set rs. length r = n" using assms Cons by simp_all
  from add_rows_exact[OF this] np_sum0_nth[OF A assms]
  show ?thesis unfolding Cons by (intro nth_equalityI) simp_all
qed

lemma np_mean0_rnd_exact:
  "\<forall>r\<in>set A. length r = n \<Longrightarrow> np_mean0_rnd (\<lambda>v. v) A = np_mean0 A"
  unfolding np_mean0_rnd_def np_mean0_def by (simp only: np_sum0_rnd_exact)

lemma np_var0_rnd_exact:
  assumes "\<forall>r\<in>set A. length r = n"
  shows "np_var0_rnd (\<lambda>v. v) A = np_var0 A"
proof -
  let ?B = "map (\<lambda>r. map2 (\<lambda>a m. (a - m) * (a - m)) r (np_mean0 A)) A"
  have e: "map (map (\<lambda>v. v * v)) (map (\<lambda>r. map2 (\<lambda>a m. a - m) r (np_mean0 A)) A) = ?B"
    by (simp add: comp_def split_def)
  have B: "\<forall>r\<in>set ?B. length r = min n (length (np_mean0 A))"
    using assms by auto
  show ?thesis
    unfolding np_var0_rnd_def np_var0_def Let_def np_mean0_rnd_exact[OF assms] e
    by (rule np_mean0_rnd_exact[OF B])
qed

lemma fit_rnd_exact:
  assumes "length X = length y" "\<forall>r\<in>set X. length r = n"
  shows "fit_rnd (\<lambda>v. v) X y = fit X y"
proof -
  have rows: "\<forall>r\<in>set (map ((!) X) (class_rows y c)). length r = n" for c
    using assms class_rows_bound[of _ y c] by auto
  show ?thesis
    unfolding fit_rnd_eq[OF assms(1)] fit_eq[OF assms(1)]
    by (simp add: np_mean0_rnd_exact[OF rows] np_var0_rnd_exact[OF rows])
qed




subsection \<open>Permutation invariance\<close>

lemma class_selection_zip:
  assumes "length X = length y"
  shows "map ((!) X) (class_rows y c) = map fst (filter (\<lambda>p. snd p = c) (zip X y))"
proof -
  have z: "zip X y = map (\<lambda>k. (X ! k, y ! k)) [0..<length y]"
    using assms by (intro nth_equalityI) simp_all
  show ?thesis unfolding class_rows_def z by (simp add: filter_map comp_def)
qed

lemma np_sum0_mset:
  assumes "mset A = mset B" "\<forall>r\<in>set A. length r = n"
  shows "np_sum0 A = np_sum0 B"
proof (cases "A = []")
  case True
  then show ?thesis using assms(1) by simp
next
  case False
  have sB: "set B = set A" using assms(1) by (metis set_mset_mset)
  have B: "B \<noteq> []" "\<forall>r\<in>set B. length r = n"
    using False assms sB by auto
  have "sum_list (map (\<lambda>r. r ! j) A) = sum_list (map (\<lambda>r. r ! j) B)" for j
  proof -
    have "mset (map (\<lambda>r. r ! j) A) = mset (map (\<lambda>r. r ! j) B)"
      using assms(1) by simp
    then show ?thesis by (metis sum_mset_sum_list)
  qed
  then show ?thesis
    using np_sum0_nth[OF False assms(2)] np_sum0_nth[OF B]
    by (intro nth_equalityI) simp_all
qed

lemma np_mean0_mset:
  assumes "mset A = mset B" "\<forall>r\<in>set A. length r = n"
  shows "np_mean0 A = np_mean0 B"
proof -
  have "length A = length B" using assms(1) by (metis size_mset)
  then show ?thesis
    unfolding np_mean0_def using np_sum0_mset[OF assms] by simp
qed

lemma np_var0_mset:
  assumes "mset A = mset B" "\<forall>r\<in>set A. length r = n"
  shows "np_var0 A = np_var0 B"
proof -
  let ?f = "\<lambda>r. map2 (\<lambda>a m. (a - m) * (a - m)) r (np_mean0 A)"
  have m: "np_mean0 B = np_mean0 A" using np_mean0_mset[OF assms] by simp
  have "mset (map ?f A) = mset (map ?f B)" using assms(1) by simp
  moreover have "\<forall>r\<in>set (map ?f A). length r = min n (length (np_mean0 A))"
    using assms(2) by auto
  ultimately have "np_mean0 (map ?f A) = np_mean0 (map ?f B)"
    by (rule np_mean0_mset)
  then show ?thesis by (simp add: np_var0_def m)
qed

lemma permuted_selection:
  assumes "length X = length y" "mset ps = mset [0..<length y]"
  shows "mset (map ((!) (map ((!) X) ps)) (class_rows (map ((!) y) ps) c))
           = mset (map ((!) X) (class_rows y c))"
proof -
  have z: "zip X y = map (\<lambda>k. (X ! k, y ! k)) [0..<length y]"
    using assms(1) by (intro nth_equalityI) simp_all
  have z': "zip (map ((!) X) ps) (map ((!) y) ps) = map (\<lambda>k. (X ! k, y ! k)) ps"
    by (intro nth_equalityI) simp_all
  have "mset (zip (map ((!) X) ps) (map ((!) y) ps)) = mset (zip X y)"
    unfolding z z' using assms(2) by simp
  then have "mset (map fst (filter (\<lambda>p. snd p = c) (zip (map ((!) X) ps) (map ((!) y) ps))))
           = mset (map fst (filter (\<lambda>p. snd p = c) (zip X y)))"
    by simp
  then show ?thesis
    using class_selection_zip[OF assms(1), of c]
          class_selection_zip[of "map ((!) X) ps" "map ((!) y) ps" c]
    by simp
qed

text \<open>
  Claim C7. For every training input \<open>(X, y)\<close> and every permutation \<open>ps\<close> of the
  sample positions applied to the rows of \<open>X\<close> and to the entries of \<open>y\<close> together,
  \<open>fit\<close> on the permuted data returns the same result (the same classes, means,
  variances and priors) as on the original data.
\<close>

theorem fit_permutation_invariant:
  assumes "length X = length y" "\<forall>r\<in>set X. length r = n"
    and "mset ps = mset [0..<length y]"
  shows "fit (map ((!) X) ps) (map ((!) y) ps) = fit X y"
proof -
  let ?X' = "map ((!) X) ps" and ?y' = "map ((!) y) ps"
  have l': "length ?X' = length ?y'" by simp
  have lp: "length ps = length y" using assms(3) by (metis size_mset length_upt diff_zero)
  have sp: "set ps = {0..<length y}" using assms(3) by (metis set_mset_mset set_upt)
  have "set ?y' = set y"
    unfolding set_map sp by (metis map_nth set_map set_upt)
  then have u: "np_unique ?y' = np_unique y" by (simp add: np_unique_eq)
  have X': "\<forall>r\<in>set ?X'. length r = n"
    using assms(1,2) sp by auto
  have rows: "\<forall>r\<in>set (map ((!) ?X') (class_rows ?y' c)). length r = n" for c
  proof
    fix r assume "r \<in> set (map ((!) ?X') (class_rows ?y' c))"
    then obtain k where "k \<in> set (class_rows ?y' c)" "r = ?X' ! k" by auto
    then have "k < length ?X'" "r = ?X' ! k"
      using class_rows_bound[of k ?y' c] by simp_all
    then have "r \<in> set ?X'" using nth_mem by blast
    then show "length r = n" using X' by blast
  qed
  have sel: "mset (map ((!) ?X') (class_rows ?y' c)) = mset (map ((!) X) (class_rows y c))" for c
    by (rule permuted_selection[OF assms(1,3)])
  have th: "np_mean0 (map ((!) ?X') (class_rows ?y' c)) = np_mean0 (map ((!) X) (class_rows y c))" for c
    by (rule np_mean0_mset[OF sel rows])
  have sg: "np_var0 (map ((!) ?X') (class_rows ?y' c)) = np_var0 (map ((!) X) (class_rows y c))" for c
    by (rule np_var0_mset[OF sel rows])
  have ct: "length (class_rows ?y' c) = length (class_rows y c)" for c
    using sel[of c] by (metis size_mset length_map)
  show ?thesis
    unfolding fit_eq[OF l'] fit_eq[OF assms(1)] u th sg ct by (simp add: lp)
qed

theorem fit_permutation_invariant_witness:
  "mset [2, 0, 1] = mset [0..<length [0, 1, 0 :: nat]] \<and>
   fit (map ((!) [[1], [2], [4]]) [2, 0, 1]) (map ((!) [0, 1, 0 :: nat]) [2, 0, 1])
     = fit [[1], [2], [4]] [0, 1, 0 :: nat]"
proof -
  have h1: "length [[1], [2], [4 :: real]] = length [0, 1, 0 :: nat]" by simp
  have h2: "\<forall>r\<in>set [[1], [2], [4 :: real]]. length r = 1" by simp
  have h3: "mset [2, 0, 1] = mset [0..<length [0, 1, 0 :: nat]]"
    by (simp add: upt_rec)
  from h3 fit_permutation_invariant[OF h1 h2 h3] show ?thesis by (rule conjI)
qed

subsection \<open>Inputs outside the contract of fit\<close>

text \<open>
  Claim C9 says that \<open>fit\<close> fails with an InvalidInputError on an empty training set
  and on \<open>X\<close> and \<open>y\<close> of different sample counts. The source validates nothing: with
  no label the loop over the classes does not run and \<open>fit\<close> returns a model without
  classes.
\<close>

theorem fit_empty_counterexample:
  "fit ([] :: real list list) ([] :: nat list)
     = Inr \<lparr>theta = [], sigma = [], proba_y = [], uniy = []\<rparr> \<and>
   fit ([] :: real list list) ([] :: nat list) \<noteq> Inl InvalidInputError"
  by (simp add: fit_def np_unique_def)

text \<open>
  Claim C9, amended. Called with an empty label vector (in particular with an empty
  training set), \<open>fit\<close> succeeds and stores a model with no class; called with a
  non-empty label vector whose length differs from the number of rows of \<open>X\<close>, it
  fails with the IndexError of numpy's boolean indexing.
\<close>

theorem fit_invalid_input:
  "(y = [] \<longrightarrow> fit X y = Inr \<lparr>theta = [], sigma = [], proba_y = [], uniy = []\<rparr>) \<and>
   (y \<noteq> [] \<and> length X \<noteq> length y \<longrightarrow> fit X y = Inl IndexError)"
proof (intro conjI impI)
  assume "y = []"
  then show "fit X y = Inr \<lparr>theta = [], sigma = [], proba_y = [], uniy = []\<rparr>"
    by (simp add: fit_def np_unique_def)
next
  assume a: "y \<noteq> [] \<and> length X \<noteq> length y"
  then have "np_unique y \<noteq> []" using set_np_unique[of y] by (metis set_empty)
  then obtain c rest where u: "np_unique y = c # rest" by (cases "np_unique y") auto
  show "fit X y = Inl IndexError"
    using a by (simp add: fit_def u np_bool_index_def)
qed

theorem fit_invalid_input_witness:
  "fit [[1], [2]] ([] :: nat list) = Inr \<lparr>theta = [], sigma = [], proba_y = [], uniy = []\<rparr> \<and>
   fit [[1], [2]] [5 :: nat] = Inl IndexError"
  using fit_invalid_input[of "[] :: nat list" "[[1], [2]]"]
        fit_invalid_input[of "[5 :: nat]" "[[1], [2]]"]
  by simp

section \<open>Properties of predict and predict\_proba\<close>

subsection \<open>Before fit\<close>

text \<open>
  Claim C8 says that \<open>predict\<close> and \<open>predict_proba\<close> on an estimator that was never
  fitted fail with an UnfittedModelError. They fail, with the AttributeError of the
  missing attribute \<open>uniy\<close>.
\<close>

theorem predict_unfitted_counterexample:
  "predict (None :: nat gnb option) [[0]] = Inl AttributeError \<and>
   predict (None :: nat gnb option) [[0]] \<noteq> Inl UnfittedModelError \<and>
   predict_proba (None :: nat gnb option) [[0]] = Inl AttributeError \<and>
   predict_proba (None :: nat gnb option) [[0]] \<noteq> Inl UnfittedModelError"
  by (simp add: predict_def predict_proba_def)

text \<open>
  Claim C8, amended. On an estimator on which \<open>fit\<close> has never been called,
  \<open>predict\<close> and \<open>predict_proba\<close> fail with an AttributeError, whatever the input.
\<close>

theorem predict_unfitted:
  "predict None X = Inl AttributeError \<and> predict_proba None X = Inl AttributeError"
  by (simp add: predict_def predict_proba_def)

subsection \<open>What predict\_proba computes\<close>

lemma np_add_assoc: "np_add (np_add x y) z = np_add x (np_add y z)"
  by (cases x; cases y; cases z) simp_all

lemma np_mul_one: "np_mul x (Fin 1) = x"
  by (cases x) (simp_all add: inf_of_sign_def)

lemma sub_rows_eq:
  "\<forall>x\<in>set X. length x = length t \<Longrightarrow> sub_rows X t = Inr (map (\<lambda>x. map2 (-) x t) X)"
  by (induction X) (simp_all add: broadcast_sub_def)

lemma jll_vector:
  "map (np_add L) (map (\<lambda>a. np_add a c) (map2 np_sub (replicate (length X) N) (map h (map d X))))
     = map (\<lambda>x. np_add L (np_add (np_sub N (h (d x))) c)) X"
  by (intro nth_equalityI) simp_all

lemma jll_class_eq:
  assumes "i < length (proba_y g)" "i < length (sigma g)" "i < length (theta g)"
    and "\<forall>x\<in>set X. length x = length (theta g ! i)"
  shows "jll_class g X i = Inr (map (\<lambda>x. jll_code g x i) X)"
proof -
  have "jll_class g X i =
          Inr (map (np_add (np_log (proba_y g ! i)))
                (map (\<lambda>a. np_add a (Fin (sum_list (map (\<lambda>v. 2 * v) (sigma g ! i)) * 1)))
                  (map2 np_sub
                    (replicate (length X)
                       (np_mul (np_sum (map (\<lambda>v. np_mul (Fin (- 0.5)) (np_log (pi * v))) (sigma g ! i))) (Fin 1)))
                    (map (\<lambda>d. Fin (sum_list (map (\<lambda>v. v ^ 2) d)))
                       (map (\<lambda>x. map2 (-) x (theta g ! i)) X)))))"
    using assms by (simp add: jll_class_def np_get_def sub_rows_eq Let_def)
  then show ?thesis
    unfolding jll_vector jll_code_def .
qed

lemma jll_loop_eq:
  assumes "\<forall>i\<in>set is. i < length (proba_y g) \<and> i < length (sigma g) \<and> i < length (theta g) \<and>
            (\<forall>x\<in>set X. length x = length (theta g ! i))"
  shows "jll_loop g X is = Inr (map (\<lambda>i. map (\<lambda>x. jll_code g x i) X) is)"
  using assms by (induction "is") (simp_all add: jll_class_eq)

lemma np_transpose_table:
  assumes "cs \<noteq> []"
  shows "np_transpose (map (\<lambda>i. map (\<lambda>x. f x i) X) cs) = map (\<lambda>x. map (f x) cs) X"
proof -
  obtain c cs' where cs: "cs = c # cs'" using assms by (cases cs) auto
  have "np_transpose (map (\<lambda>i. map (\<lambda>x. f x i) X) cs)
          = map (\<lambda>k. map (\<lambda>row. row ! k) (map (\<lambda>i. map (\<lambda>x. f x i) X) cs)) [0..<length X]"
    by (simp add: np_transpose_def cs)
  also have "\<dots> = map (\<lambda>x. map (f x) cs) X"
    by (intro nth_equalityI) simp_all
  finally show ?thesis .
qed

lemma fitted_model_index:
  assumes "fitted_model n g" "i < length (uniy g)"
  shows "i < length (proba_y g)" "i < length (sigma g)" "i < length (theta g)"
    "length (theta g ! i) = n" "length (sigma g ! i) = n"
    "0 < proba_y g ! i" "\<forall>j<n. 0 \<le> sigma g ! i ! j"
proof -
  have l: "length (theta g) = length (uniy g)" "length (sigma g) = length (uniy g)"
    "length (proba_y g) = length (uniy g)"
    using assms(1) by (simp_all add: fitted_model_def)
  show "i < length (proba_y g)" "i < length (sigma g)" "i < length (theta g)"
    using l assms(2) by simp_all
  then have m: "theta g ! i \<in> set (theta g)" "sigma g ! i \<in> set (sigma g)"
    "proba_y g ! i \<in> set (proba_y g)"
    by simp_all
  show "length (theta g ! i) = n" "0 < proba_y g ! i"
    using assms(1) m by (simp_all add: fitted_model_def)
  have s: "length (sigma g ! i) = n \<and> (\<forall>v\<in>set (sigma g ! i). 0 \<le> v)"
    using assms(1) m(2) unfolding fitted_model_def by blast
  then show "length (sigma g ! i) = n" by simp
  show "\<forall>j<n. 0 \<le> sigma g ! i ! j"
    using s nth_mem[of _ "sigma g ! i"] by auto
qed

lemma jll_code_spec:
  assumes "length x = length (theta g ! i)" "length x = length (sigma g ! i)"
  shows "jll_code g x i = jll_spec g x i"
proof -
  have s: "sigma g ! i = map (\<lambda>j. sigma g ! i ! j) [0..<length x]"
    using assms(2) by (simp add: map_nth)
  have n: "map (\<lambda>v. np_mul (Fin (- 0.5)) (np_log (pi * v))) (sigma g ! i)
             = map (\<lambda>j. np_mul (Fin (- 0.5)) (np_log (pi * sigma g ! i ! j))) [0..<length x]"
    using assms(2) by (intro nth_equalityI) simp_all
  have c: "map (\<lambda>v. 2 * v) (sigma g ! i) = map (\<lambda>j. 2 * sigma g ! i ! j) [0..<length x]"
    using assms(2) by (intro nth_equalityI) simp_all
  have q: "map (\<lambda>v. v ^ 2) (map2 (-) x (theta g ! i))
             = map (\<lambda>j. (x ! j - theta g ! i ! j) ^ 2) [0..<length x]"
    using assms(1) by (intro nth_equalityI) simp_all
  show ?thesis
    unfolding jll_code_def jll_spec_def n c q np_mul_one np_sub_def
    by (simp add: np_add_assoc)
qed

lemma predict_proba_eq:
  assumes "fitted_model n g" "\<forall>x\<in>set X. length x = n"
  shows "predict_proba (Some g) X
           = Inr (map (\<lambda>x. map (\<lambda>i. proba_spec g x i) [0..<length (uniy g)]) X)"
proof -
  let ?C = "length (uniy g)"
  have "1 \<le> ?C" using assms(1) unfolding fitted_model_def by blast
  then have C: "[0..<?C] \<noteq> []" by auto
  have "jll_loop g X [0..<?C] = Inr (map (\<lambda>i. map (\<lambda>x. jll_code g x i) X) [0..<?C])"
    using fitted_model_index[OF assms(1)] assms(2) by (intro jll_loop_eq) simp
  moreover have "map (\<lambda>i. map (\<lambda>x. jll_code g x i) X) [0..<?C]
                   = map (\<lambda>i. map (\<lambda>x. jll_spec g x i) X) [0..<?C]"
    using fitted_model_index[OF assms(1)] assms(2) by (simp add: jll_code_spec)
  ultimately have l: "jll_loop g X [0..<?C] = Inr (map (\<lambda>i. map (\<lambda>x. jll_spec g x i) X) [0..<?C])"
    by simp
  have ne: "map (\<lambda>i. map (\<lambda>x. jll_spec g x i) X) [0..<?C] \<noteq> []"
    using C by simp
  show ?thesis
    unfolding predict_proba_def option.case l sum.case if_not_P[OF ne] np_transpose_table[OF C]
    by (simp add: Let_def proba_spec_def comp_def)
qed

text \<open>
  Claim C1. For every fitted model and every input matrix \<open>X\<close> with the feature count
  of the model, \<open>predict_proba\<close> returns one row per sample and one entry per class,
  and the entry of sample \<open>k\<close> for class \<open>i\<close> is the exponential of the score
  \<open>ln(class_prior[i]) + sum_j(-0.5 * ln(pi * variance[i][j]))
     - sum_j((x_j - mean[i][j])^2) + sum_j(2 * variance[i][j])\<close>
  divided by the sum over the classes of the exponentials of the scores of the sample:
  the squared deviations are not divided by the variance and the logarithm is of
  \<open>pi * variance\<close>, not of \<open>2 * pi * variance\<close>.
\<close>

theorem predict_proba_formula:
  assumes "fitted_model n g" "\<forall>x\<in>set X. length x = n"
  shows "\<exists>P. predict_proba (Some g) X = Inr P \<and> length P = length X \<and>
           (\<forall>k<length X. length (P ! k) = length (uniy g) \<and>
              (\<forall>i<length (uniy g). P ! k ! i = proba_spec g (X ! k) i))"
  unfolding predict_proba_eq[OF assms] by simp

theorem predict_proba_formula_witness:
  "fitted_model 1 \<lparr>theta = [[0]], sigma = [[1]], proba_y = [1], uniy = [7 :: nat]\<rparr> \<and>
   (\<exists>P. predict_proba (Some \<lparr>theta = [[0]], sigma = [[1]], proba_y = [1], uniy = [7 :: nat]\<rparr>) [[2]] = Inr P \<and>
        length P = length [[2 :: real]] \<and>
        (\<forall>k<length [[2 :: real]].
           length (P ! k) = length (uniy \<lparr>theta = [[0]], sigma = [[1]], proba_y = [1], uniy = [7 :: nat]\<rparr>) \<and>
           (\<forall>i<length (uniy \<lparr>theta = [[0]], sigma = [[1]], proba_y = [1], uniy = [7 :: nat]\<rparr>).
              P ! k ! i = proba_spec \<lparr>theta = [[0]], sigma = [[1]], proba_y = [1], uniy = [7 :: nat]\<rparr> ([[2]] ! k) i)))"
proof -
  have h1: "fitted_model 1 \<lparr>theta = [[0]], sigma = [[1]], proba_y = [1], uniy = [7 :: nat]\<rparr>"
    by (simp add: fitted_model_def)
  have h2: "\<forall>x\<in>set [[2 :: real]]. length x = 1" by simp
  from h1 predict_proba_formula[OF h1 h2] show ?thesis by (rule conjI)
qed

subsection \<open>Rows of probabilities\<close>

lemma dbl_overflow_pos: "0 < dbl_overflow"
  by (simp add: dbl_overflow_def)

lemma dbl_range_Fin:
  "- dbl_overflow < a \<Longrightarrow> a < dbl_overflow \<Longrightarrow> dbl_range (Fin a) = Fin a"
  by (simp add: dbl_range_def)

lemma dbl_range_not_Fin: "\<forall>a. v \<noteq> Fin a \<Longrightarrow> dbl_range v = v"
  by (cases v) (simp_all add: dbl_range_def)

lemma np_add_not_Fin: "\<forall>a. v \<noteq> Fin a \<Longrightarrow> \<forall>a. np_add v w \<noteq> Fin a"
  by (cases v; cases w) simp_all

lemma sum_loop_not_Fin: "\<forall>a. res \<noteq> Fin a \<Longrightarrow> \<forall>a. sum_loop res xs \<noteq> Fin a"
proof (induction xs arbitrary: res)
  case Nil
  then show ?case by simp
next
  case (Cons x xs)
  have n: "\<forall>a. np_add res x \<noteq> Fin a" using Cons.prems by (rule np_add_not_Fin)
  then have "dbl_range (np_add res x) = np_add res x" by (rule dbl_range_not_Fin)
  then show ?case using Cons.IH[OF n] by simp
qed

lemma sum_loop_Fin:
  "\<bar>a\<bar> + sum_list (map abs xs) < dbl_overflow \<Longrightarrow>
   sum_loop (Fin a) (map Fin xs) = Fin (a + sum_list xs)"
proof (induction xs arbitrary: a)
  case Nil
  then show ?case by simp
next
  case (Cons x xs)
  define T where "T = sum_list (map abs xs)"
  have n: "0 \<le> T" unfolding T_def by (intro sum_list_nonneg) auto
  have p: "\<bar>a\<bar> + \<bar>x\<bar> + T < dbl_overflow" using Cons.prems by (simp add: T_def)
  have r: "- dbl_overflow < a + x" "a + x < dbl_overflow"
    using p n by linarith+
  have "\<bar>a + x\<bar> + T < dbl_overflow" using p by linarith
  then have "sum_loop (Fin (a + x)) (map Fin xs) = Fin (a + x + sum_list xs)"
    unfolding T_def by (rule Cons.IH)
  then show ?case using dbl_range_Fin[OF r] by (simp add: add.assoc)
qed

lemma np_sum_Fin:
  assumes "sum_list (map (\<lambda>j. \<bar>f j\<bar>) js) < dbl_overflow"
  shows "np_sum (map (\<lambda>j. Fin (f j)) js) = Fin (sum_list (map f js))"
proof -
  have "\<bar>0\<bar> + sum_list (map abs (map f js)) < dbl_overflow"
    using assms by (simp add: comp_def)
  from sum_loop_Fin[OF this] show ?thesis
    by (simp add: np_sum_def comp_def)
qed

lemma sum_loop_nonneg_inv:
  assumes "sum_loop (Fin a) xs = Fin S" "0 \<le> a" "a < dbl_overflow"
    and "\<forall>x\<in>set xs. \<forall>e. x = Fin e \<longrightarrow> 0 \<le> e"
  shows "\<exists>es. xs = map Fin es \<and> (\<forall>e\<in>set es. 0 \<le> e) \<and> S = a + sum_list es \<and> S < dbl_overflow"
  using assms
proof (induction xs arbitrary: a)
  case Nil
  then show ?case by simp
next
  case (Cons x xs)
  have f: "\<exists>b. dbl_range (np_add (Fin a) x) = Fin b"
  proof (rule ccontr)
    assume "\<not> (\<exists>b. dbl_range (np_add (Fin a) x) = Fin b)"
    then have "\<forall>b. dbl_range (np_add (Fin a) x) \<noteq> Fin b" by blast
    then have "\<forall>b. sum_loop (dbl_range (np_add (Fin a) x)) xs \<noteq> Fin b"
      by (rule sum_loop_not_Fin)
    then show False using Cons.prems(1) by simp
  qed
  obtain e where x: "x = Fin e"
  proof (cases x)
    case (Fin e)
    then show ?thesis using that by blast
  next
    case PInf
    then show ?thesis using f by (simp add: dbl_range_def)
  next
    case NInf
    then show ?thesis using f by (simp add: dbl_range_def)
  next
    case NaN
    then show ?thesis using f by (simp add: dbl_range_def)
  qed
  have e: "0 \<le> e" using Cons.prems(4) x by simp
  have lt: "a + e < dbl_overflow"
    using f x by (auto simp: dbl_range_def split: if_splits)
  have r: "dbl_range (np_add (Fin a) x) = Fin (a + e)"
    using lt e Cons.prems(2) dbl_overflow_pos by (simp add: x dbl_range_def)
  have "sum_loop (Fin (a + e)) xs = Fin S" using Cons.prems(1) r by simp
  moreover have "0 \<le> a + e" using e Cons.prems(2) by simp
  moreover have "\<forall>x\<in>set xs. \<forall>e. x = Fin e \<longrightarrow> 0 \<le> e" using Cons.prems(4) by simp
  ultimately obtain es where es: "xs = map Fin es" "\<forall>e\<in>set es. 0 \<le> e"
    "S = a + e + sum_list es" "S < dbl_overflow"
    using Cons.IH[OF _ _ lt] by blast
  show ?case
    using es e x by (intro exI[of _ "e # es"]) simp
qed

lemma np_exp_nonneg: "np_exp v = Fin e \<Longrightarrow> 0 \<le> e"
  by (cases v) (auto split: if_splits)

lemma normalised_row:
  assumes "np_sum E = Fin S" "0 < S" "\<forall>x\<in>set E. \<forall>e. x = Fin e \<longrightarrow> 0 \<le> e"
  shows "(\<forall>v\<in>set (map (\<lambda>p. np_div p (np_sum E)) E). \<exists>p. v = Fin p \<and> 0 \<le> p) \<and>
         np_sum (map (\<lambda>p. np_div p (np_sum E)) E) = Fin 1"
proof -
  have "sum_loop (Fin 0) E = Fin S" using assms(1) by (simp add: np_sum_def)
  then obtain es where es: "E = map Fin es" "\<forall>e\<in>set es. 0 \<le> e" "S = 0 + sum_list es"
    using sum_loop_nonneg_inv[OF _ _ dbl_overflow_pos assms(3)] by blast
  have sE: "np_sum (map Fin es) = Fin S" using assms(1) es(1) by simp
  have row: "map (\<lambda>p. np_div p (np_sum E)) E = map (\<lambda>e. Fin (e / S)) es"
    unfolding es(1) sE using assms(2) by simp
  have abs: "map (\<lambda>e. \<bar>e / S\<bar>) es = map (\<lambda>e. e / S) es"
    using es(2) assms(2) by (intro map_cong refl) simp
  have one: "sum_list (map (\<lambda>e. e / S) es) = 1"
    using es(3) assms(2) by (simp add: sum_list_divide)
  have "sum_list (map (\<lambda>e. \<bar>e / S\<bar>) es) < dbl_overflow"
    unfolding abs one by (simp add: dbl_overflow_def)
  then have "np_sum (map (\<lambda>e. Fin (e / S)) es) = Fin 1"
    using np_sum_Fin[of "\<lambda>e. e / S" es] one by simp
  moreover have "\<forall>v\<in>set (map (\<lambda>e. Fin (e / S)) es). \<exists>p. v = Fin p \<and> 0 \<le> p"
    using es(2) assms(2) by (auto intro!: divide_nonneg_nonneg less_imp_le)
  ultimately show ?thesis unfolding row by blast
qed

lemma np_exp_in_range:
  "exp a < dbl_overflow \<Longrightarrow> dbl_underflow < exp a \<Longrightarrow> np_exp (Fin a) = Fin (exp a)"
  by simp

lemma jll_spec_real:
  assumes "0 < proba_y g ! i" "\<forall>j<length x. 0 < sigma g ! i ! j"
    and "sum_list (map (\<lambda>j. \<bar>- 0.5 * ln (pi * sigma g ! i ! j)\<bar>) [0..<length x]) < dbl_overflow"
  shows "jll_spec g x i = Fin (jll_real g x i)"
proof -
  have m: "map (\<lambda>j. np_mul (Fin (- 0.5)) (np_log (pi * sigma g ! i ! j))) [0..<length x]
          = map (\<lambda>j. Fin (- 0.5 * ln (pi * sigma g ! i ! j))) [0..<length x]"
    using assms(2) by (intro map_cong refl) (simp add: np_log_def)
  have "np_sum (map (\<lambda>j. np_mul (Fin (- 0.5)) (np_log (pi * sigma g ! i ! j))) [0..<length x])
          = Fin (sum_list (map (\<lambda>j. - 0.5 * ln (pi * sigma g ! i ! j)) [0..<length x]))"
    unfolding m by (rule np_sum_Fin[OF assms(3)])
  then show ?thesis
    unfolding jll_spec_def jll_real_def using assms(1)
    by (simp add: np_log_def np_sub_def)
qed

lemma exp_ge_pow2: "real n \<le> a \<Longrightarrow> 2 ^ n \<le> exp a"
proof -
  assume a: "real n \<le> a"
  have "(2::real) \<le> exp 1" using exp_ge_add_one_self[of 1] by simp
  then have "(2::real) ^ n \<le> exp 1 ^ n" by (intro power_mono) simp_all
  also have "\<dots> = exp (real n)" using exp_of_nat_mult[of n "1::real"] by simp
  also have "\<dots> \<le> exp a" using a by simp
  finally show ?thesis .
qed

lemma exp_le_inverse_pow2: "a \<le> - real n \<Longrightarrow> exp a \<le> 1 / 2 ^ n"
proof -
  assume a: "a \<le> - real n"
  have "exp a \<le> exp (- real n)" using a by simp
  also have "\<dots> = 1 / exp (real n)" by (simp add: exp_minus inverse_eq_divide)
  also have "\<dots> \<le> 1 / 2 ^ n"
    using exp_ge_pow2[of n "real n"] by (intro divide_left_mono) simp_all
  finally show ?thesis .
qed

lemma exp_overflows: "1024 \<le> a \<Longrightarrow> dbl_overflow \<le> exp a"
  using exp_ge_pow2[of 1024 a] by (simp add: dbl_overflow_def)

lemma exp_underflows: "a \<le> - 1075 \<Longrightarrow> exp a \<le> dbl_underflow"
  using exp_le_inverse_pow2[of a 1075] by (simp add: dbl_underflow_def)

lemma exp_in_range:
  assumes "- 100 \<le> a" "a \<le> 100"
  shows "exp a \<le> 3 ^ 100" "dbl_underflow < exp a"
proof -
  have e: "exp (100::real) = exp 1 ^ 100" using exp_of_nat_mult[of 100 "1::real"] by simp
  have "exp (1::real) ^ 100 \<le> 3 ^ 100" using exp_le by (intro power_mono) simp_all
  then have u: "exp (100::real) \<le> 3 ^ 100" using e by simp
  have "exp a \<le> exp 100" using assms(2) by simp
  also have "\<dots> \<le> 3 ^ 100" by (rule u)
  finally show "exp a \<le> 3 ^ 100" .
  have "dbl_underflow < 1 / 3 ^ 100" by (simp add: dbl_underflow_def)
  also have "\<dots> \<le> 1 / exp 100" using u by (intro divide_left_mono) simp_all
  also have "\<dots> = exp (- 100)" by (simp add: exp_minus inverse_eq_divide)
  also have "\<dots> \<le> exp a" using assms(1) by simp
  finally show "dbl_underflow < exp a" .
qed

lemma ln_pi_bounds: "0 \<le> ln pi" "ln pi \<le> 3"
proof -
  show "0 \<le> ln pi" using pi_ge_two by simp
  have "ln pi \<le> pi - 1" using pi_gt_zero by (rule ln_le_minus_one)
  then show "ln pi \<le> 3" using pi_less_4 by simp
qed

lemma ln_crude: "0 < x \<Longrightarrow> - (1 / x) \<le> ln x \<and> ln x \<le> (x::real)"
proof -
  assume x: "0 < x"
  have "ln x \<le> x - 1" using x by (rule ln_le_minus_one)
  moreover have "ln (1 / x) \<le> 1 / x - 1" using x by (intro ln_le_minus_one) simp
  moreover have "ln (1 / x) = - ln x" using x by (simp add: ln_div)
  ultimately show ?thesis by linarith
qed

lemma ln_pi_times:
  assumes "0 < c"
  shows "- (1 / c) \<le> ln (pi * c)" "ln (pi * c) \<le> 3 + c"
  using ln_mult_pos[OF pi_gt_zero assms] ln_pi_bounds ln_crude[OF assms] by linarith+

lemma fit_example_overflow:
  "fit [[0], [60]] [0, 0 :: nat] = Inr \<lparr>theta = [[30]], sigma = [[900]], proba_y = [1], uniy = [0]\<rparr>"
  by (simp add: fit_def np_unique_def np_bool_index_def np_mean0_def np_var0_def)

lemma fit_example_underflow:
  "fit [[0], [2]] [0, 0 :: nat] = Inr \<lparr>theta = [[1]], sigma = [[1]], proba_y = [1], uniy = [0]\<rparr>"
  by (simp add: fit_def np_unique_def np_bool_index_def np_mean0_def np_var0_def)

lemma ln_900_pi: "ln (pi * 900) \<le> 61"
proof -
  have "ln (900::real) = ln (30 ^ 2)" by simp
  also have "\<dots> = 2 * ln 30" by (subst ln_realpow) simp_all
  also have "\<dots> \<le> 2 * 29" using ln_le_minus_one[of "30::real"] by simp
  finally have "ln (900::real) \<le> 58" by simp
  moreover have "ln (pi * 900) = ln pi + ln 900"
    using pi_gt_zero by (simp add: ln_mult)
  ultimately show ?thesis using ln_pi_bounds by simp
qed

text \<open>
  Claim C6 says that with positive variances and a matching feature count every entry
  of the result is non-negative and every row sums to 1. The exponential of a score
  leaves the range of doubles on ordinary data. Fitted on the two samples 0 and 60 of
  one class (mean 30, variance 900) the score of the sample 30 is above 1024: its
  exponential is \<open>inf\<close> and the probability is \<open>inf / inf\<close>. Fitted on the samples 0
  and 2 (mean 1, variance 1) the score of the sample 100 is below -1075: its
  exponential is 0 and the probability is \<open>0 / 0\<close>.
\<close>

theorem predict_proba_nan_counterexample:
  "fit [[0], [60]] [0, 0 :: nat]
     = Inr \<lparr>theta = [[30]], sigma = [[900]], proba_y = [1], uniy = [0]\<rparr> \<and>
   predict_proba (Some \<lparr>theta = [[30]], sigma = [[900]], proba_y = [1], uniy = [0 :: nat]\<rparr>) [[30]]
     = Inr [[NaN]] \<and>
   fit [[0], [2]] [0, 0 :: nat]
     = Inr \<lparr>theta = [[1]], sigma = [[1]], proba_y = [1], uniy = [0]\<rparr> \<and>
   predict_proba (Some \<lparr>theta = [[1]], sigma = [[1]], proba_y = [1], uniy = [0 :: nat]\<rparr>) [[100]]
     = Inr [[NaN]]"
proof -
  let ?g = "\<lparr>theta = [[30]], sigma = [[900]], proba_y = [1], uniy = [0 :: nat]\<rparr>"
  let ?h = "\<lparr>theta = [[1]], sigma = [[1]], proba_y = [1], uniy = [0 :: nat]\<rparr>"
  have g: "fitted_model 1 ?g" and h: "fitted_model 1 ?h" by (simp_all add: fitted_model_def)
  have "1 \<le> pi * 900" using pi_ge_two by simp
  then have lg: "0 \<le> ln (pi * 900)" by simp
  have "\<bar>ln (pi * 900) / 2\<bar> < dbl_overflow"
    using lg ln_900_pi by (simp add: dbl_overflow_def)
  then have jg: "jll_spec ?g [30] 0 = Fin (jll_real ?g [30] 0)"
    by (intro jll_spec_real) simp_all
  have "jll_real ?g [30] 0 = 1800 - ln (pi * 900) / 2" by (simp add: jll_real_def)
  then have "1024 \<le> jll_real ?g [30] 0" using ln_900_pi by simp
  then have "np_exp (jll_spec ?g [30] 0) = PInf"
    unfolding jg using exp_overflows by simp
  then have pg: "proba_spec ?g [30] 0 = NaN"
    by (simp add: proba_spec_def np_sum_def dbl_range_def)
  have "\<bar>ln pi / 2\<bar> < dbl_overflow"
    using ln_pi_bounds by (simp add: dbl_overflow_def)
  then have jh: "jll_spec ?h [100] 0 = Fin (jll_real ?h [100] 0)"
    by (intro jll_spec_real) simp_all
  have "jll_real ?h [100] 0 = - 9799 - ln pi / 2" by (simp add: jll_real_def)
  then have "jll_real ?h [100] 0 \<le> - 1075" using ln_pi_bounds(1) by linarith
  then have "exp (jll_real ?h [100] 0) \<le> dbl_underflow" by (rule exp_underflows)
  moreover have "dbl_underflow < dbl_overflow" by (simp add: dbl_underflow_def dbl_overflow_def)
  ultimately have "np_exp (jll_spec ?h [100] 0) = Fin 0"
    unfolding jh by simp
  then have ph: "proba_spec ?h [100] 0 = NaN"
    by (simp add: proba_spec_def np_sum_def dbl_range_def dbl_overflow_def inf_of_sign_def)
  have "predict_proba (Some ?g) [[30]] = Inr [[NaN]]"
    using predict_proba_eq[OF g, of "[[30]]"] pg by simp
  moreover have "predict_proba (Some ?h) [[100]] = Inr [[NaN]]"
    using predict_proba_eq[OF h, of "[[100]]"] ph by simp
  ultimately show ?thesis using fit_example_overflow fit_example_underflow by simp
qed

text \<open>
  The sum of the exponentials can overflow when every exponential is finite. Fitted on
  the samples -19, 19 of one class and -19, 19 of another (means 0, variances 361,
  priors 1/2), the two scores of the sample 93/32 are equal and lie between
  \<open>1023 ln 2\<close> and \<open>1024 ln 2\<close>: each exponential is a finite double of at least
  \<open>2^1023\<close>, their sum is \<open>inf\<close> and the row of the result is \<open>[0, 0]\<close>. The bounds
  on \<open>ln 2\<close> come from \<open>(1 + x/n)^n \<le> exp x\<close> with \<open>n = 4096\<close>, the power being
  bounded by twelve squarings rounded down to 24 decimals.
\<close>

lemma square_step:
  fixes b :: real
  assumes "0 \<le> c" "c \<le> b ^ n" "d \<le> c * c"
  shows "d \<le> b ^ (2 * n)"
proof -
  have "c * c \<le> b ^ n * b ^ n" using assms(1,2) by (intro mult_mono) simp_all
  also have "\<dots> = b ^ (2 * n)" by (simp add: power_add mult_2)
  finally show ?thesis using assms(3) by simp
qed

lemma pow4096_lower:
  fixes b :: real
  assumes c0: "0 \<le> c0" "c0 \<le> b"
    and c1: "c1 \<le> c0 * c0" "0 \<le> c1"
    and c2: "c2 \<le> c1 * c1" "0 \<le> c2"
    and c3: "c3 \<le> c2 * c2" "0 \<le> c3"
    and c4: "c4 \<le> c3 * c3" "0 \<le> c4"
    and c5: "c5 \<le> c4 * c4" "0 \<le> c5"
    and c6: "c6 \<le> c5 * c5" "0 \<le> c6"
    and c7: "c7 \<le> c6 * c6" "0 \<le> c7"
    and c8: "c8 \<le> c7 * c7" "0 \<le> c8"
    and c9: "c9 \<le> c8 * c8" "0 \<le> c9"
    and c10: "c10 \<le> c9 * c9" "0 \<le> c10"
    and c11: "c11 \<le> c10 * c10" "0 \<le> c11"
    and c12: "c12 \<le> c11 * c11"
  shows "c12 \<le> b ^ 4096"
proof -
  have p0: "c0 \<le> b ^ 1" using c0(2) by simp
  have p1: "c1 \<le> b ^ 2" using square_step[OF c0(1) p0 c1(1)] by simp
  have p2: "c2 \<le> b ^ 4" using square_step[OF c1(2) p1 c2(1)] by simp
  have p3: "c3 \<le> b ^ 8" using square_step[OF c2(2) p2 c3(1)] by simp
  have p4: "c4 \<le> b ^ 16" using square_step[OF c3(2) p3 c4(1)] by simp
  have p5: "c5 \<le> b ^ 32" using square_step[OF c4(2) p4 c5(1)] by simp
  have p6: "c6 \<le> b ^ 64" using square_step[OF c5(2) p5 c6(1)] by simp
  have p7: "c7 \<le> b ^ 128" using square_step[OF c6(2) p6 c7(1)] by simp
  have p8: "c8 \<le> b ^ 256" using square_step[OF c7(2) p7 c8(1)] by simp
  have p9: "c9 \<le> b ^ 512" using square_step[OF c8(2) p8 c9(1)] by simp
  have p10: "c10 \<le> b ^ 1024" using square_step[OF c9(2) p9 c10(1)] by simp
  have p11: "c11 \<le> b ^ 2048" using square_step[OF c10(2) p10 c11(1)] by simp
  have p12: "c12 \<le> b ^ 4096" using square_step[OF c11(2) p11 c12(1)] by simp
  show ?thesis by (rule p12)
qed

lemma ln2_upper: "ln (2::real) \<le> 69325 / 100000"
proof -
  define b :: real where "b = 1 + (69325 / 100000) / real 4096"
  have "2000088321166628320020398 / 10 ^ 24 \<le> b ^ 4096"
    by (rule pow4096_lower[of "1000169250488281250000000 / 10 ^ 24" b "1000338529622290283441543 / 10 ^ 24" "1000677173846885734885057 / 10 ^ 24" "1001354806258190375794828 / 10 ^ 24" "1002711448016377983396856 / 10 ^ 24" "1005430247983101486894631 / 10 ^ 24" "1010889983559360951555560 / 10 ^ 24" "1021898558860645054930612 / 10 ^ 24" "1044276664601463245907556 / 10 ^ 24" "1090513752231156960271666 / 10 ^ 24" "1189220243805277192146972 / 10 ^ 24" "1414244788276282925903230 / 10 ^ 24" "2000088321166628320020398 / 10 ^ 24"]) (simp_all add: b_def)
  then have "2 \<le> b ^ 4096" by simp
  also have "\<dots> \<le> exp (69325 / 100000)"
    unfolding b_def by (rule exp_ge_one_plus_x_over_n_power_n) simp_all
  finally have "ln 2 \<le> ln (exp (69325 / 100000 :: real))" by (subst ln_le_cancel_iff) simp_all
  then show ?thesis by simp
qed

lemma ln2_lower: "693 / 1000 \<le> ln (2::real)"
proof -
  define b :: real where "b = 1 - (693 / 1000) / real 4096"
  have "500044276860928140593285 / 10 ^ 24 \<le> b ^ 4096"
    by (rule pow4096_lower[of "999830810546875000000000 / 10 ^ 24" b "999661649718821048736572 / 10 ^ 24" "999323413918554871348525 / 10 ^ 24" "998647285605835347971310 / 10 ^ 24" "997296401047902876184194 / 10 ^ 24" "994600111543099533034385 / 10 ^ 24" "989229381881546032975052 / 10 ^ 24" "978574769977745634822955 / 10 ^ 24" "957608580436997779431249 / 10 ^ 24" "917014193326562046239590 / 10 ^ 24" "840915030762365311700295 / 10 ^ 24" "707138088962069798500026 / 10 ^ 24" "500044276860928140593285 / 10 ^ 24"]) (simp_all add: b_def)
  then have "1 / 2 \<le> b ^ 4096" by simp
  also have "\<dots> \<le> exp (- (693 / 1000))"
    unfolding b_def by (rule exp_ge_one_minus_x_over_n_power_n) simp_all
  finally have "exp (693 / 1000 :: real) \<le> 2" by (simp add: exp_minus field_simps)
  then have "ln (exp (693 / 1000 :: real)) \<le> ln 2" by (subst ln_le_cancel_iff) simp_all
  then show ?thesis by simp
qed

lemma fit_example_sum_overflow:
  "fit [[- 19], [19], [- 19], [19]] [0, 0, 1, 1 :: nat]
     = Inr \<lparr>theta = [[0], [0]], sigma = [[361], [361]], proba_y = [1 / 2, 1 / 2], uniy = [0, 1]\<rparr>"
  by (simp add: fit_def np_unique_def np_bool_index_def np_mean0_def np_var0_def)

lemma ln_19_bounds: "4 * ln 2 + 3 / 19 \<le> ln (19::real)" "ln (19::real) \<le> 4 * ln 2 + 3 / 16"
proof -
  have "ln (19::real) = ln (16 * (19 / 16))" by simp
  also have "\<dots> = ln 16 + ln (19 / 16)" by (rule ln_mult_pos) simp_all
  also have "ln (16::real) = ln (2 ^ 4)" by simp
  also have "\<dots> = 4 * ln 2" by (subst ln_realpow) simp_all
  finally have e: "ln (19::real) = 4 * ln 2 + ln (19 / 16)" .
  have "ln (19 / 16 :: real) \<le> 19 / 16 - 1" by (rule ln_le_minus_one) simp
  then show "ln (19::real) \<le> 4 * ln 2 + 3 / 16" using e by simp
  have "- (1 / (19 / 16)) \<le> ln (19 / 16 :: real) \<and> ln (19 / 16 :: real) \<le> 19 / 16"
    by (rule ln_crude) simp
  moreover have "ln (16 / 19 :: real) \<le> 16 / 19 - 1" by (rule ln_le_minus_one) simp
  moreover have "ln (16 / 19 :: real) = - ln (19 / 16)"
    using ln_div[of "16::real" 19] ln_div[of "19::real" 16] by simp
  ultimately show "4 * ln 2 + 3 / 19 \<le> ln (19::real)" using e by simp
qed

lemma ln_pi_ln2: "ln 2 \<le> ln pi" "ln pi \<le> 2 * ln 2"
proof -
  show "ln 2 \<le> ln pi" using pi_ge_two by simp
  have "ln pi \<le> ln 4" using pi_less_4 pi_gt_zero by simp
  also have "ln (4::real) = ln (2 ^ 2)" by simp
  also have "\<dots> = 2 * ln 2" by (subst ln_realpow) simp_all
  finally show "ln pi \<le> 2 * ln 2" .
qed

lemma ln_361_pi:
  "9 * ln 2 + 6 / 19 \<le> ln (pi * 361)" "ln (pi * 361) \<le> 10 * ln 2 + 3 / 8"
proof -
  have "ln (361::real) = ln (19 ^ 2)" by simp
  also have "\<dots> = 2 * ln 19" by (subst ln_realpow) simp_all
  finally have a: "ln (361::real) = 2 * ln 19" .
  have b: "ln (pi * 361) = ln pi + ln 361"
    by (rule ln_mult_pos[OF pi_gt_zero]) simp
  show "9 * ln 2 + 6 / 19 \<le> ln (pi * 361)" "ln (pi * 361) \<le> 10 * ln 2 + 3 / 8"
    using a b ln_19_bounds ln_pi_ln2 by linarith+
qed

lemma exp_1023_ln2: "exp (1023 * ln 2) = (2::real) ^ 1023"
  using exp_of_nat_mult[of 1023 "ln (2::real)"] by simp

lemma sum_overflow_score:
  fixes s :: real
  assumes "s = - ln 2 - ln (pi * 361) / 2 - (93 / 32)\<^sup>2 + 722"
  shows "2 ^ 1023 \<le> exp s" "exp s < dbl_overflow"
proof -
  have lo: "1023 * ln 2 \<le> s"
    using assms ln_361_pi(2) ln2_upper by (simp add: power2_eq_square) 
  have "(2::real) ^ 1023 = exp (1023 * ln 2)" by (simp only: exp_1023_ln2)
  also have "\<dots> \<le> exp s" using lo by simp
  finally show "2 ^ 1023 \<le> exp s" .
  have hi: "s \<le> 1024 * ln 2 - 1 / 25"
    using assms ln_361_pi(1) ln2_lower by (simp add: power2_eq_square)
  have e: "exp (1024 * ln 2) = (2::real) ^ 1024"
    using exp_of_nat_mult[of 1024 "ln (2::real)"] by simp
  have "(1::real) + 1 / 25 \<le> exp (1 / 25)" by (rule exp_ge_add_one_self)
  then have "exp (- (1 / 25)) \<le> 1 / (1 + 1 / 25 :: real)"
    unfolding exp_minus inverse_eq_divide by (intro divide_left_mono) simp_all
  then have m: "exp (- (1 / 25)) \<le> (25 / 26 :: real)" by simp
  have "exp s \<le> exp (1024 * ln 2 - 1 / 25)" using hi by simp
  also have "\<dots> = exp (1024 * ln 2) * exp (- (1 / 25))"
    using exp_add[of "1024 * ln 2" "- (1 / 25) :: real"] by simp
  also have "\<dots> = 2 ^ 1024 * exp (- (1 / 25))" by (simp only: e)
  also have "\<dots> \<le> 2 ^ 1024 * (25 / 26)" using m by (intro mult_left_mono) simp_all
  also have "\<dots> < dbl_overflow" by (simp add: dbl_overflow_def)
  finally show "exp s < dbl_overflow" .
qed

lemma predict_proba_sum_overflow:
  "predict_proba
     (Some \<lparr>theta = [[0], [0]], sigma = [[361], [361]], proba_y = [1 / 2, 1 / 2], uniy = [0, 1 :: nat]\<rparr>)
     [[93 / 32]]
     = Inr [[Fin 0, Fin 0]] \<and>
   \<not> row_sum_finite_pos
     \<lparr>theta = [[0], [0]], sigma = [[361], [361]], proba_y = [1 / 2, 1 / 2], uniy = [0, 1 :: nat]\<rparr>
     [93 / 32]"
proof -
  let ?g = "\<lparr>theta = [[0], [0]], sigma = [[361], [361]], proba_y = [1 / 2, 1 / 2], uniy = [0, 1 :: nat]\<rparr>"
  define s :: real where "s = - ln 2 - ln (pi * 361) / 2 - (93 / 32)\<^sup>2 + 722"
  define E where "E = exp s"
  have g: "fitted_model 1 ?g" by (simp add: fitted_model_def)
  have "0 \<le> ln (pi * 361)" using ln_361_pi(1) ln2_lower by linarith
  moreover have "ln (pi * 361) \<le> 8" using ln_361_pi(2) ln2_upper by linarith
  ultimately have b: "\<bar>ln (pi * 361) / 2\<bar> < dbl_overflow"
    by (simp add: dbl_overflow_def)
  have j: "jll_spec ?g [93 / 32] i = Fin s" if "i < 2" for i
  proof -
    have i: "i = 0 \<or> i = 1" using that by auto
    have "jll_spec ?g [93 / 32] i = Fin (jll_real ?g [93 / 32] i)"
      using i b by (intro jll_spec_real) auto
    moreover have "jll_real ?g [93 / 32] i = s"
      using i by (auto simp: jll_real_def s_def ln_div)
    ultimately show ?thesis by simp
  qed
  have E: "2 ^ 1023 \<le> E" "E < dbl_overflow"
    unfolding E_def by (rule sum_overflow_score[OF s_def])+
  have "dbl_underflow < 2 ^ 1023" by (simp add: dbl_underflow_def)
  then have u: "dbl_underflow < E" using E(1) by linarith
  have x: "np_exp (Fin s) = Fin E"
    unfolding E_def using E u by (intro np_exp_in_range) (simp_all add: E_def)
  have "dbl_overflow \<le> 2 ^ 1023 + 2 ^ 1023" by (simp add: dbl_overflow_def)
  then have o: "dbl_overflow \<le> E + E" using E(1) by linarith
  have p: "0 < E" unfolding E_def by simp
  have sm: "np_sum [Fin E, Fin E] = PInf"
    using o p E(2) by (simp add: np_sum_def dbl_range_def)
  have two: "[0..<2] = [0, Suc 0]" by (simp add: numeral_2_eq_2)
  have "proba_spec ?g [93 / 32] i = Fin 0" if "i < 2" for i
    unfolding proba_spec_def using that j x sm by (simp add: two)
  then have z: "proba_spec ?g [93 / 32] 0 = Fin 0" "proba_spec ?g [93 / 32] (Suc 0) = Fin 0"
    by simp_all
  have "exp_row ?g [93 / 32] = [Fin E, Fin E]"
    using j x by (simp add: exp_row_def two)
  then have "\<not> row_sum_finite_pos ?g [93 / 32]"
    using sm by (simp add: row_sum_finite_pos_def)
  moreover have "predict_proba (Some ?g) [[93 / 32]] = Inr [[Fin 0, Fin 0]]"
    using predict_proba_eq[OF g, of "[[93 / 32]]"] z by simp
  ultimately show ?thesis by (rule conjI[rotated])
qed

text \<open>
  Claim C6, amended. For every fitted model whose variances are all positive and every
  input matrix with the feature count of the model, such that for every row the sum
  over the classes of the exponentials of the scores is finite and positive (no
  exponential is infinite, their sum does not overflow and not all of them are 0),
  every entry of the matrix that \<open>predict_proba\<close> returns is a non-negative finite
  number and every row sums to 1. The scores are those of exact arithmetic.
\<close>

theorem predict_proba_rows_stochastic:
  assumes "fitted_model n g" "\<forall>s\<in>set (sigma g). \<forall>v\<in>set s. 0 < v"
    and "\<forall>x\<in>set X. length x = n \<and> row_sum_finite_pos g x"
  shows "\<exists>P. predict_proba (Some g) X = Inr P \<and>
           (\<forall>row\<in>set P. (\<forall>v\<in>set row. \<exists>p. v = Fin p \<and> 0 \<le> p) \<and> np_sum row = Fin 1)"
proof -
  let ?C = "length (uniy g)"
  have len: "\<forall>x\<in>set X. length x = n" using assms(3) by blast
  have "(\<forall>v\<in>set row. \<exists>p. v = Fin p \<and> 0 \<le> p) \<and> np_sum row = Fin 1"
    if "row \<in> set (map (\<lambda>x. map (\<lambda>i. proba_spec g x i) [0..<?C]) X)" for row
  proof -
    from that obtain x where x: "x \<in> set X" and r: "row = map (\<lambda>i. proba_spec g x i) [0..<?C]"
      by auto
    have "row_sum_finite_pos g x" using x assms(3) by blast
    then obtain S where S: "np_sum (exp_row g x) = Fin S" "0 < S"
      unfolding row_sum_finite_pos_def by (auto split: npfloat.splits)
    have nn: "\<forall>v\<in>set (exp_row g x). \<forall>e. v = Fin e \<longrightarrow> 0 \<le> e"
      unfolding exp_row_def using np_exp_nonneg by auto
    have "row = map (\<lambda>p. np_div p (np_sum (exp_row g x))) (exp_row g x)"
      unfolding r exp_row_def proba_spec_def by (simp add: comp_def)
    then show ?thesis using normalised_row[OF S nn] by simp
  qed
  then show ?thesis unfolding predict_proba_eq[OF assms(1) len] by blast
qed

text \<open>
  The condition on the sum of the exponentials cannot be dropped: a row of the result
  whose entries are finite and sum to 1 has a finite and positive sum of exponentials.
\<close>

lemma np_sum_zeros: "np_sum (map (\<lambda>x. Fin 0) xs) = Fin 0"
  using np_sum_Fin[of "\<lambda>x. 0" xs] dbl_overflow_pos by simp

lemma normalised_row_converse:
  assumes "E \<noteq> []" "\<forall>x\<in>set E. \<forall>e. x = Fin e \<longrightarrow> 0 \<le> e"
    and "\<forall>v\<in>set (map (\<lambda>p. np_div p (np_sum E)) E). \<exists>p. v = Fin p"
    and "np_sum (map (\<lambda>p. np_div p (np_sum E)) E) = Fin 1"
  shows "\<exists>S. np_sum E = Fin S \<and> 0 < S"
proof (cases "np_sum E")
  case (Fin S)
  then have "sum_loop (Fin 0) E = Fin S" by (simp add: np_sum_def)
  then obtain es where es: "E = map Fin es" "\<forall>e\<in>set es. 0 \<le> e" "S = 0 + sum_list es"
    using sum_loop_nonneg_inv[OF _ _ dbl_overflow_pos assms(2)] by blast
  have "0 \<le> S" using es(2,3) by (simp add: sum_list_nonneg)
  moreover have "S \<noteq> 0"
  proof
    assume z: "S = 0"
    obtain e es' where "es = e # es'" using assms(1) es(1) by (cases es) auto
    then have "np_div (Fin e) (Fin 0) \<in> set (map (\<lambda>p. np_div p (np_sum E)) E)"
      using es(1) Fin z by simp
    then obtain p where "np_div (Fin e) (Fin 0) = Fin p" using assms(3) by blast
    then show False by (simp add: inf_of_sign_def split: if_splits)
  qed
  ultimately show ?thesis using Fin by simp
next
  case PInf
  have "map (\<lambda>p. np_div p (np_sum E)) E = map (\<lambda>x. Fin 0) E"
  proof (intro map_cong refl)
    fix x assume x: "x \<in> set E"
    then obtain p where "np_div x PInf = Fin p" using assms(3) PInf by auto
    then show "np_div x (np_sum E) = Fin 0" unfolding PInf by (cases x) simp_all
  qed
  then have "np_sum (map (\<lambda>x. Fin 0) E) = Fin 1" using assms(4) by (simp only:)
  then show ?thesis using np_sum_zeros[of E] by simp
next
  case NInf
  have "map (\<lambda>p. np_div p (np_sum E)) E = map (\<lambda>x. Fin 0) E"
  proof (intro map_cong refl)
    fix x assume x: "x \<in> set E"
    then obtain p where "np_div x NInf = Fin p" using assms(3) NInf by auto
    then show "np_div x (np_sum E) = Fin 0" unfolding NInf by (cases x) simp_all
  qed
  then have "np_sum (map (\<lambda>x. Fin 0) E) = Fin 1" using assms(4) by (simp only:)
  then show ?thesis using np_sum_zeros[of E] by simp
next
  case NaN
  obtain x where x: "x \<in> set E" using assms(1) by (cases E) auto
  then obtain p where "np_div x NaN = Fin p" using assms(3) NaN by auto
  then show ?thesis by (cases x) simp_all
qed

lemma row_sum_finite_pos_necessary:
  assumes "0 < length (uniy g)"
    and "\<forall>v\<in>set (map (\<lambda>i. proba_spec g x i) [0..<length (uniy g)]). \<exists>p. v = Fin p"
    and "np_sum (map (\<lambda>i. proba_spec g x i) [0..<length (uniy g)]) = Fin 1"
  shows "row_sum_finite_pos g x"
proof -
  have r: "map (\<lambda>i. proba_spec g x i) [0..<length (uniy g)]
             = map (\<lambda>p. np_div p (np_sum (exp_row g x))) (exp_row g x)"
    unfolding exp_row_def proba_spec_def by (simp add: comp_def)
  have ne: "exp_row g x \<noteq> []" using assms(1) by (simp add: exp_row_def)
  have nn: "\<forall>v\<in>set (exp_row g x). \<forall>e. v = Fin e \<longrightarrow> 0 \<le> e"
    unfolding exp_row_def using np_exp_nonneg by auto
  obtain S where "np_sum (exp_row g x) = Fin S" "0 < S"
    using normalised_row_converse[OF ne nn] assms(2,3) unfolding r by blast
  then show ?thesis by (simp add: row_sum_finite_pos_def)
qed

subsection \<open>The fitted model of the docstring\<close>

lemma fit_docstring:
  "fit [[- 1, - 1], [- 2, - 1], [- 3, - 2], [1, 1], [2, 1], [3, 2]] [1, 1, 1, 2, 2, 2 :: int]
     = Inr \<lparr>theta = [[- 2, - 4 / 3], [2, 4 / 3]],
            sigma = [[2 / 3, 2 / 9], [2 / 3, 2 / 9]],
            proba_y = [1 / 2, 1 / 2],
            uniy = [1, 2]\<rparr>"
  by (simp add: fit_def np_unique_def np_bool_index_def np_mean0_def np_var0_def)

lemma jll_docstring:
  fixes g :: "int gnb"
  defines "g \<equiv> \<lparr>theta = [[- 2, - 4 / 3], [2, 4 / 3]],
            sigma = [[2 / 3, 2 / 9], [2 / 3, 2 / 9]],
            proba_y = [1 / 2, 1 / 2],
            uniy = [1, 2]\<rparr>"
  shows "jll_real g [- 0.8, - 1] 1 \<le> jll_real g [- 0.8, - 1] 0"
    and "- 100 \<le> jll_real g [- 0.8, - 1] 1" and "jll_real g [- 0.8, - 1] 0 \<le> 100"
proof -
  let ?L = "ln (1 / 2) + (- 0.5 * ln (pi * (2 / 3)) + - 0.5 * ln (pi * (2 / 9)))"
  have j0: "jll_real g [- 0.8, - 1] 0 = ?L - ((6 / 5) ^ 2 + (1 / 3) ^ 2) + (4 / 3 + 4 / 9)"
    by (simp add: jll_real_def g_def upt_rec power2_eq_square)
  have j1: "jll_real g [- 0.8, - 1] 1 = ?L - ((14 / 5) ^ 2 + (7 / 3) ^ 2) + (4 / 3 + 4 / 9)"
    by (simp add: jll_real_def g_def upt_rec power2_eq_square)
  show "jll_real g [- 0.8, - 1] 1 \<le> jll_real g [- 0.8, - 1] 0"
    unfolding j0 j1 by (simp add: power2_eq_square)
  have b: "- 2 \<le> ln (1 / 2 :: real)" "ln (1 / 2 :: real) \<le> 1 / 2"
    using ln_crude[of "1 / 2"] by simp_all
  have c: "- (3 / 2) \<le> ln (pi * (2 / 3))" "ln (pi * (2 / 3)) \<le> 3 + 2 / 3"
    "- (9 / 2) \<le> ln (pi * (2 / 9))" "ln (pi * (2 / 9)) \<le> 3 + 2 / 9"
    using ln_pi_times[of "2 / 3"] ln_pi_times[of "2 / 9"] by simp_all
  have e: "?L = ln (1 / 2) - ln (pi * (2 / 3)) / 2 - ln (pi * (2 / 9)) / 2"
    by (simp add: field_simps)
  have L1: "- 10 \<le> ?L"
    unfolding e using b c by argo
  have L2: "?L \<le> 10"
    unfolding e using b c by argo
  show "- 100 \<le> jll_real g [- 0.8, - 1] 1"
    unfolding j1 using L1 by (simp add: power2_eq_square)
  show "jll_real g [- 0.8, - 1] 0 \<le> 100"
    unfolding j0 using L2 by (simp add: power2_eq_square)
qed

lemma docstring_row:
  fixes g :: "int gnb" and x :: "real list"
  defines "g \<equiv> \<lparr>theta = [[- 2, - 4 / 3], [2, 4 / 3]],
            sigma = [[2 / 3, 2 / 9], [2 / 3, 2 / 9]],
            proba_y = [1 / 2, 1 / 2],
            uniy = [1, 2]\<rparr>"
    and "x \<equiv> [- 0.8, - 1]"
  shows "exp_row g x = [Fin (exp (jll_real g x 0)), Fin (exp (jll_real g x 1))]"
    and "np_sum (exp_row g x) = Fin (exp (jll_real g x 0) + exp (jll_real g x 1))"
    and "exp (jll_real g x 1) \<le> exp (jll_real g x 0)"
proof -
  have le: "jll_real g x 1 \<le> jll_real g x 0"
    and lo: "- 100 \<le> jll_real g x 1" and hi: "jll_real g x 0 \<le> 100"
    unfolding g_def x_def by (rule jll_docstring)+
  have c: "- (3 / 2) \<le> ln (pi * (2 / 3))" "ln (pi * (2 / 3)) \<le> 3 + 2 / 3"
    "- (9 / 2) \<le> ln (pi * (2 / 9))" "ln (pi * (2 / 9)) \<le> 3 + 2 / 9"
    using ln_pi_times[of "2 / 3"] ln_pi_times[of "2 / 9"] by simp_all
  have "\<bar>ln (pi * (2 / 3)) / 2\<bar> + \<bar>ln (pi * (2 / 9)) / 2\<bar> < 10"
    using c by argo
  moreover have "(10::real) < dbl_overflow" by (simp add: dbl_overflow_def)
  ultimately have n: "\<bar>ln (pi * (2 / 3)) / 2\<bar> + \<bar>ln (pi * (2 / 9)) / 2\<bar> < dbl_overflow"
    by linarith
  have nrm: "sum_list (map (\<lambda>j. \<bar>- 0.5 * ln (pi * sigma g ! i ! j)\<bar>) [0..<length x]) < dbl_overflow"
    if "i < 2" for i
  proof -
    from that consider "i = 0" | "i = 1" by linarith
    then show ?thesis
      using n by cases (simp_all add: g_def x_def upt_rec)
  qed
  have s0: "jll_spec g x 0 = Fin (jll_real g x 0)"
    by (rule jll_spec_real[OF _ _ nrm]) (simp_all add: g_def x_def less_Suc_eq numeral_2_eq_2)
  have s1: "jll_spec g x 1 = Fin (jll_real g x 1)"
    by (rule jll_spec_real[OF _ _ nrm]) (simp_all add: g_def x_def less_Suc_eq numeral_2_eq_2)
  have r0: "exp (jll_real g x 0) \<le> 3 ^ 100" "dbl_underflow < exp (jll_real g x 0)"
    using le lo hi by (intro exp_in_range; linarith)+
  have r1: "exp (jll_real g x 1) \<le> 3 ^ 100" "dbl_underflow < exp (jll_real g x 1)"
    using le lo hi by (intro exp_in_range; linarith)+
  have big: "(3::real) ^ 100 + 3 ^ 100 < dbl_overflow" by (simp add: dbl_overflow_def)
  have p3: "(0::real) \<le> 3 ^ 100" by simp
  have o0: "exp (jll_real g x 0) < dbl_overflow"
    using r0(1) big p3 by linarith
  have o1: "exp (jll_real g x 1) < dbl_overflow"
    using r1(1) big p3 by linarith
  have e0: "np_exp (jll_spec g x 0) = Fin (exp (jll_real g x 0))"
    unfolding s0 by (rule np_exp_in_range[OF o0 r0(2)])
  have e1: "np_exp (jll_spec g x 1) = Fin (exp (jll_real g x 1))"
    unfolding s1 by (rule np_exp_in_range[OF o1 r1(2)])
  have "[0..<length (uniy g)] = [0, 1]" by (simp add: g_def upt_rec)
  then show row: "exp_row g x = [Fin (exp (jll_real g x 0)), Fin (exp (jll_real g x 1))]"
    unfolding exp_row_def using e0 e1 by simp
  have "\<bar>exp (jll_real g x 0)\<bar> + \<bar>exp (jll_real g x 1)\<bar> < dbl_overflow"
    using r0(1) r1(1) big exp_ge_zero[of "jll_real g x 0"] exp_ge_zero[of "jll_real g x 1"]
    by linarith
  then have "sum_list (map (\<lambda>j. \<bar>[exp (jll_real g x 0), exp (jll_real g x 1)] ! j\<bar>) [0, 1])
               < dbl_overflow"
    by simp
  from np_sum_Fin[OF this]
  show "np_sum (exp_row g x) = Fin (exp (jll_real g x 0) + exp (jll_real g x 1))"
    unfolding row by simp
  show "exp (jll_real g x 1) \<le> exp (jll_real g x 0)" using le by simp
qed

theorem predict_proba_rows_stochastic_witness:
  "fitted_model 2 \<lparr>theta = [[- 2, - 4 / 3], [2, 4 / 3]], sigma = [[2 / 3, 2 / 9], [2 / 3, 2 / 9]],
                    proba_y = [1 / 2, 1 / 2], uniy = [1, 2 :: int]\<rparr> \<and>
   row_sum_finite_pos \<lparr>theta = [[- 2, - 4 / 3], [2, 4 / 3]], sigma = [[2 / 3, 2 / 9], [2 / 3, 2 / 9]],
                    proba_y = [1 / 2, 1 / 2], uniy = [1, 2 :: int]\<rparr> [- 0.8, - 1] \<and>
   (\<exists>P. predict_proba (Some \<lparr>theta = [[- 2, - 4 / 3], [2, 4 / 3]], sigma = [[2 / 3, 2 / 9], [2 / 3, 2 / 9]],
                    proba_y = [1 / 2, 1 / 2], uniy = [1, 2 :: int]\<rparr>) [[- 0.8, - 1]] = Inr P \<and>
        (\<forall>row\<in>set P. (\<forall>v\<in>set row. \<exists>p. v = Fin p \<and> 0 \<le> p) \<and> np_sum row = Fin 1))"
proof -
  let ?g = "\<lparr>theta = [[- 2, - 4 / 3], [2, 4 / 3]], sigma = [[2 / 3, 2 / 9], [2 / 3, 2 / 9]],
                    proba_y = [1 / 2, 1 / 2], uniy = [1, 2 :: int]\<rparr>"
  let ?x = "[- 0.8, - 1 :: real]"
  have h1: "fitted_model 2 ?g" by (simp add: fitted_model_def)
  have h2: "\<forall>s\<in>set (sigma ?g). \<forall>v\<in>set s. 0 < v" by simp
  have "0 < exp (jll_real ?g ?x 0) + exp (jll_real ?g ?x 1)"
    by (intro add_pos_pos exp_gt_zero)
  then have r: "row_sum_finite_pos ?g ?x"
    unfolding row_sum_finite_pos_def docstring_row(2) by simp
  have h3: "\<forall>x\<in>set [?x]. length x = 2 \<and> row_sum_finite_pos ?g x"
    using r by simp
  from h1 r predict_proba_rows_stochastic[OF h1 h2 h3] show ?thesis by blast
qed

subsection \<open>predict takes the first maximum\<close>

lemma np_le_refl: "x \<noteq> NaN \<Longrightarrow> np_le x x"
  by (cases x) simp_all

lemma np_le_total: "x \<noteq> NaN \<Longrightarrow> y \<noteq> NaN \<Longrightarrow> np_le x y \<or> np_le y x"
  by (cases x; cases y) auto

lemma np_le_trans: "np_le x y \<Longrightarrow> np_le y z \<Longrightarrow> np_le x z"
  by (cases x; cases y; cases z) simp_all

lemma argmax_loop_bound: "m < i \<Longrightarrow> argmax_loop mp m i xs < i + length xs"
proof (induction xs arbitrary: mp m i)
  case Nil
  then show ?case by simp
next
  case (Cons x xs)
  have "argmax_loop x i (Suc i) xs < Suc i + length xs" by (rule Cons.IH) simp
  moreover have "argmax_loop mp m (Suc i) xs < Suc i + length xs"
    using Cons.prems by (intro Cons.IH) simp
  ultimately show ?case by simp
qed

lemma np_argmax_bound:
  assumes "xs \<noteq> []"
  shows "\<exists>a<length xs. np_argmax xs = Inr a"
proof -
  obtain x rest where xs: "xs = x # rest" using assms by (cases xs) auto
  have "argmax_loop x 0 1 rest < 1 + length rest" by (rule argmax_loop_bound) simp
  then show ?thesis by (simp add: np_argmax_def xs)
qed

lemma argmax_loop_first_max:
  assumes "NaN \<notin> set ys" "i \<le> length ys" "m < i"
    and "\<forall>j<i. np_le (ys ! j) (ys ! m)" "\<forall>j<m. \<not> np_le (ys ! m) (ys ! j)"
  shows "argmax_loop (ys ! m) m i (drop i ys) < length ys \<and>
         (\<forall>j<length ys. np_le (ys ! j) (ys ! argmax_loop (ys ! m) m i (drop i ys))) \<and>
         (\<forall>j<argmax_loop (ys ! m) m i (drop i ys).
            \<not> np_le (ys ! argmax_loop (ys ! m) m i (drop i ys)) (ys ! j))"
  using assms
proof (induction "length ys - i" arbitrary: i m)
  case 0
  then have "drop i ys = []" "i = length ys" by simp_all
  then show ?case using "0.prems" by simp
next
  case (Suc d)
  then have i: "i < length ys" by simp
  then have dr: "drop i ys = ys ! i # drop (Suc i) ys" by (simp add: Cons_nth_drop_Suc)
  have nn: "ys ! k \<noteq> NaN" if "k < length ys" for k
    using that Suc.prems(1) nth_mem[of k ys] by metis
  have d: "d = length ys - Suc i" using Suc.hyps(2) by simp
  show ?case
  proof (cases "np_le (ys ! i) (ys ! m)")
    case True
    have a: "\<forall>j<Suc i. np_le (ys ! j) (ys ! m)"
      using Suc.prems(4) True by (auto simp: less_Suc_eq)
    have "argmax_loop (ys ! m) m i (drop i ys) = argmax_loop (ys ! m) m (Suc i) (drop (Suc i) ys)"
      using True by (simp add: dr)
    moreover note Suc.hyps(1)[OF d Suc.prems(1) _ _ a Suc.prems(5)]
    ultimately show ?thesis using i Suc.prems(3) by simp
  next
    case False
    have mi: "np_le (ys ! m) (ys ! i)"
      using False np_le_total[of "ys ! i" "ys ! m"] nn[OF i] nn[of m] Suc.prems(3) i by auto
    have a: "\<forall>j<Suc i. np_le (ys ! j) (ys ! i)"
    proof (intro allI impI)
      fix j assume "j < Suc i"
      then consider "j < i" | "j = i" by linarith
      then show "np_le (ys ! j) (ys ! i)"
      proof cases
        case 1
        then show ?thesis using Suc.prems(4) mi np_le_trans by blast
      next
        case 2
        then show ?thesis using np_le_refl[OF nn[OF i]] by simp
      qed
    qed
    have b: "\<forall>j<i. \<not> np_le (ys ! i) (ys ! j)"
      using Suc.prems(4) False np_le_trans by blast
    have "argmax_loop (ys ! m) m i (drop i ys) = argmax_loop (ys ! i) i (Suc i) (drop (Suc i) ys)"
      using False nn[OF i] by (simp add: dr)
    moreover note Suc.hyps(1)[OF d Suc.prems(1) _ _ a b]
    ultimately show ?thesis using i by simp
  qed
qed

lemma np_argmax_first_max:
  assumes "ys \<noteq> []" "NaN \<notin> set ys" "np_argmax ys = Inr a"
  shows "a < length ys \<and> (\<forall>j<length ys. np_le (ys ! j) (ys ! a)) \<and>
         (\<forall>j<a. \<not> np_le (ys ! a) (ys ! j))"
proof -
  obtain y rest where ys: "ys = y # rest" using assms(1) by (cases ys) auto
  have y: "y \<noteq> NaN" using assms(2) ys by auto
  have a: "a = argmax_loop (ys ! 0) 0 1 (drop 1 ys)"
    using assms(3) y by (simp add: np_argmax_def ys)
  have "\<forall>j<1. np_le (ys ! j) (ys ! 0)" using np_le_refl[OF y] by (simp add: ys)
  then show ?thesis
    unfolding a using assms(1,2)
    by (intro argmax_loop_first_max) (simp_all add: Suc_le_eq)
qed

lemma argmax_rows_eq:
  "\<forall>r\<in>set P. r \<noteq> [] \<Longrightarrow>
   \<exists>idx. argmax_rows P = Inr idx \<and> length idx = length P \<and>
     (\<forall>k<length P. np_argmax (P ! k) = Inr (idx ! k) \<and> idx ! k < length (P ! k))"
proof (induction P)
  case Nil
  then show ?case by simp
next
  case (Cons r P)
  obtain a where a: "a < length r" "np_argmax r = Inr a"
    using np_argmax_bound[of r] Cons.prems by auto
  obtain idx where idx: "argmax_rows P = Inr idx" "length idx = length P"
    "\<forall>k<length P. np_argmax (P ! k) = Inr (idx ! k) \<and> idx ! k < length (P ! k)"
    using Cons by auto
  have "\<forall>k<length (r # P). np_argmax ((r # P) ! k) = Inr ((a # idx) ! k) \<and>
          (a # idx) ! k < length ((r # P) ! k)"
    using a idx(3) by (auto simp: nth_Cons split: nat.splits)
  then show ?case using a idx(1,2) by (intro exI[of _ "a # idx"]) simp
qed

lemma np_take_eq:
  "\<forall>k\<in>set idx. k < length a \<Longrightarrow> np_take a idx = Inr (map ((!) a) idx)"
  by (induction idx) (simp_all add: np_get_def)

text \<open>
  Claim C4. For every fitted model and every input matrix \<open>X\<close> with the feature count
  of the model, \<open>predict\<close> returns one label per row of \<open>X\<close>, in the order of the rows:
  the label of row \<open>k\<close> is \<open>classes[a]\<close> for \<open>a\<close> the argmax of row \<open>k\<close> of
  \<open>predict_proba(X)\<close>. When the row has no NaN, \<open>a\<close> is the position of a maximal
  probability and every earlier position holds a strictly smaller one: on ties the
  lowest class index wins.
\<close>

theorem predict_argmax:
  assumes "fitted_model n g" "\<forall>x\<in>set X. length x = n"
  shows "\<exists>P L. predict_proba (Some g) X = Inr P \<and> predict (Some g) X = Inr L \<and>
           length P = length X \<and> length L = length X \<and>
           (\<forall>k<length X. \<exists>a<length (uniy g).
              np_argmax (P ! k) = Inr a \<and> L ! k = uniy g ! a \<and>
              (NaN \<notin> set (P ! k) \<longrightarrow>
                 (\<forall>i<length (uniy g). np_le (P ! k ! i) (P ! k ! a)) \<and>
                 (\<forall>i<a. \<not> np_le (P ! k ! a) (P ! k ! i))))"
proof -
  let ?C = "length (uniy g)"
  let ?P = "map (\<lambda>x. map (\<lambda>i. proba_spec g x i) [0..<?C]) X"
  have C: "0 < ?C" using assms(1) unfolding fitted_model_def by auto
  have P: "predict_proba (Some g) X = Inr ?P" by (rule predict_proba_eq[OF assms])
  have len: "\<forall>k<length X. length (?P ! k) = ?C" by simp
  have ne: "\<forall>r\<in>set ?P. r \<noteq> []" using C by auto
  obtain idx where idx: "argmax_rows ?P = Inr idx" "length idx = length ?P"
    "\<forall>k<length ?P. np_argmax (?P ! k) = Inr (idx ! k) \<and> idx ! k < length (?P ! k)"
    using argmax_rows_eq[OF ne] by blast
  have b: "\<forall>k\<in>set idx. k < ?C"
  proof
    fix a assume "a \<in> set idx"
    then obtain k where "k < length idx" "a = idx ! k" by (metis in_set_conv_nth)
    then show "a < ?C" using idx(2,3) by simp
  qed
  let ?L = "map ((!) (uniy g)) idx"
  have L: "predict (Some g) X = Inr ?L"
    by (simp add: predict_def P idx(1) np_take_eq[OF b])
  have "\<exists>a<?C. np_argmax (?P ! k) = Inr a \<and> ?L ! k = uniy g ! a \<and>
              (NaN \<notin> set (?P ! k) \<longrightarrow>
                 (\<forall>i<?C. np_le (?P ! k ! i) (?P ! k ! a)) \<and>
                 (\<forall>i<a. \<not> np_le (?P ! k ! a) (?P ! k ! i)))"
    if k: "k < length X" for k
  proof -
    have a: "np_argmax (?P ! k) = Inr (idx ! k)" "idx ! k < ?C"
      using idx(2,3) k by simp_all
    have r: "?P ! k \<noteq> []" "length (?P ! k) = ?C" using k C by simp_all
    have "(\<forall>i<?C. np_le (?P ! k ! i) (?P ! k ! (idx ! k))) \<and>
          (\<forall>i<idx ! k. \<not> np_le (?P ! k ! (idx ! k)) (?P ! k ! i))"
      if "NaN \<notin> set (?P ! k)"
      using np_argmax_first_max[OF r(1) that a(1)] r(2) by simp
    then show ?thesis using a idx(2) k by (intro exI[of _ "idx ! k"]) simp
  qed
  then show ?thesis using P L idx(2) by (intro exI[of _ ?P] exI[of _ ?L]) simp
qed

theorem predict_argmax_witness:
  "fitted_model 1 \<lparr>theta = [[0], [3]], sigma = [[1], [2]], proba_y = [1 / 4, 3 / 4], uniy = [5, 8 :: nat]\<rparr> \<and>
   (\<exists>P L. predict_proba (Some \<lparr>theta = [[0], [3]], sigma = [[1], [2]], proba_y = [1 / 4, 3 / 4], uniy = [5, 8 :: nat]\<rparr>) [[2], [4]] = Inr P \<and>
           predict (Some \<lparr>theta = [[0], [3]], sigma = [[1], [2]], proba_y = [1 / 4, 3 / 4], uniy = [5, 8 :: nat]\<rparr>) [[2], [4]] = Inr L \<and>
           length P = length [[2 :: real], [4]] \<and> length L = length [[2 :: real], [4]] \<and>
           (\<forall>k<length [[2 :: real], [4]].
              \<exists>a<length (uniy \<lparr>theta = [[0], [3]], sigma = [[1], [2]], proba_y = [1 / 4, 3 / 4], uniy = [5, 8 :: nat]\<rparr>).
              np_argmax (P ! k) = Inr a \<and>
              L ! k = uniy \<lparr>theta = [[0], [3]], sigma = [[1], [2]], proba_y = [1 / 4, 3 / 4], uniy = [5, 8 :: nat]\<rparr> ! a \<and>
              (NaN \<notin> set (P ! k) \<longrightarrow>
                 (\<forall>i<length (uniy \<lparr>theta = [[0], [3]], sigma = [[1], [2]], proba_y = [1 / 4, 3 / 4], uniy = [5, 8 :: nat]\<rparr>).
                    np_le (P ! k ! i) (P ! k ! a)) \<and>
                 (\<forall>i<a. \<not> np_le (P ! k ! a) (P ! k ! i)))))"
proof -
  have h1: "fitted_model 1 \<lparr>theta = [[0], [3]], sigma = [[1], [2]], proba_y = [1 / 4, 3 / 4], uniy = [5, 8 :: nat]\<rparr>"
    by (simp add: fitted_model_def)
  have h2: "\<forall>x\<in>set [[2 :: real], [4]]. length x = 1" by simp
  from h1 predict_argmax[OF h1 h2] show ?thesis by (rule conjI)
qed

subsection \<open>The example of the docstring\<close>

text \<open>
  Claim C5. After \<open>fit\<close> on \<open>X = [[-1,-1],[-2,-1],[-3,-2],[1,1],[2,1],[3,2]]\<close> with
  \<open>y = [1,1,1,2,2,2]\<close>, \<open>predict\<close> applied to the single row \<open>[-0.8,-1]\<close> returns
  \<open>[1]\<close>.
\<close>

theorem docstring_example_predict:
  "\<exists>g. fit [[- 1, - 1], [- 2, - 1], [- 3, - 2], [1, 1], [2, 1], [3, 2]] [1, 1, 1, 2, 2, 2 :: int]
          = Inr g \<and>
        predict (Some g) [[- 0.8, - 1]] = Inr [1]"
proof -
  let ?g = "\<lparr>theta = [[- 2, - 4 / 3], [2, 4 / 3]],
            sigma = [[2 / 3, 2 / 9], [2 / 3, 2 / 9]],
            proba_y = [1 / 2, 1 / 2],
            uniy = [1, 2 :: int]\<rparr>"
  let ?x = "[- 0.8, - 1 :: real]"
  define e0 e1 where "e0 = exp (jll_real ?g ?x 0)" and "e1 = exp (jll_real ?g ?x 1)"
  have g: "fitted_model 2 ?g" by (simp add: fitted_model_def)
  have row: "exp_row ?g ?x = [Fin e0, Fin e1]"
    unfolding e0_def e1_def by (rule docstring_row(1))
  have sum: "np_sum (exp_row ?g ?x) = Fin (e0 + e1)"
    unfolding e0_def e1_def by (rule docstring_row(2))
  have sum': "np_sum [Fin e0, Fin e1] = Fin (e0 + e1)" using sum row by simp
  have le: "e1 \<le> e0" unfolding e0_def e1_def by (rule docstring_row(3))
  have pos: "0 < e0 + e1" unfolding e0_def e1_def by (intro add_pos_pos exp_gt_zero)
  have rw: "map (\<lambda>i. proba_spec ?g ?x i) [0..<length (uniy ?g)]
              = map (\<lambda>p. np_div p (np_sum (exp_row ?g ?x))) (exp_row ?g ?x)"
    unfolding exp_row_def proba_spec_def by (simp add: comp_def)
  have "map (\<lambda>i. proba_spec ?g ?x i) [0..<length (uniy ?g)]
              = [Fin (e0 / (e0 + e1)), Fin (e1 / (e0 + e1))]"
    unfolding rw row sum' using pos by simp
  then have P: "predict_proba (Some ?g) [?x] = Inr [[Fin (e0 / (e0 + e1)), Fin (e1 / (e0 + e1))]]"
    using predict_proba_eq[OF g, of "[?x]"] by simp
  have "e1 / (e0 + e1) \<le> e0 / (e0 + e1)"
    using le pos by (intro divide_right_mono) simp_all
  then have am: "np_argmax [Fin (e0 / (e0 + e1)), Fin (e1 / (e0 + e1))] = Inr 0"
    by (simp add: np_argmax_def)
  have "predict (Some ?g) [?x] = Inr [1]"
    unfolding predict_def option.case P sum.case
    by (simp add: am np_get_def)
  then show ?thesis using fit_docstring by blast
qed

end
